theory Spec2Isabelle
  imports Main "HOL-Library.Word" "HOL-Library.AList"
begin

section \<open>JavaScript strings\<close>

text \<open>
  A JavaScript string is a finite sequence of 16-bit code units. String literals of the
  source are written \<open>js ''...''\<close>: every ASCII character becomes the code unit of the
  same number.
\<close>

type_synonym code_unit = "16 word"
type_synonym jsstring = "code_unit list"

definition js :: "string \<Rightarrow> jsstring" where
  "js s = map of_char s"

abbreviation slash :: code_unit where "slash \<equiv> 0x2F"
abbreviation percent :: code_unit where "percent \<equiv> 0x25"
abbreviation colon :: code_unit where "colon \<equiv> 0x3A"
abbreviation star :: code_unit where "star \<equiv> 0x2A"
abbreviation question_mark :: code_unit where "question_mark \<equiv> 0x3F"
abbreviation hash_sign :: code_unit where "hash_sign \<equiv> 0x23"

text \<open>\<^verbatim>\<open>s.startsWith(c)\<close> for a one-character string \<open>c\<close>.\<close>

definition startsWith :: "code_unit \<Rightarrow> jsstring \<Rightarrow> bool" where
  "startsWith c s = (case s of [] \<Rightarrow> False | d # _ \<Rightarrow> d = c)"

text \<open>\<^verbatim>\<open>path.split(/[?#]/)[0]\<close>: the part before the first \<open>?\<close> or \<open>#\<close>.\<close>

definition before_query :: "jsstring \<Rightarrow> jsstring" where
  "before_query s = takeWhile (\<lambda>c. c \<noteq> question_mark \<and> c \<noteq> hash_sign) s"

text \<open>\<^verbatim>\<open>p.replace(/\/+$/, "")\<close>: the trailing run of slashes is removed.\<close>

definition strip_trailing_slashes :: "jsstring \<Rightarrow> jsstring" where
  "strip_trailing_slashes p = rev (dropWhile (\<lambda>c. c = slash) (rev p))"

text \<open>
  The canonical form of a code unit under the \<open>i\<close> flag of a regular expression without
  the \<open>u\<close> flag: upper case. Both patterns of the source consist of ASCII characters, and
  a code unit from 128 on is never canonicalised to an ASCII one, so only the ASCII
  letters need to be mapped.
\<close>

definition canonicalize :: "code_unit \<Rightarrow> code_unit" where
  "canonicalize c = (if 0x61 \<le> c \<and> c \<le> 0x7A then c - 0x20 else c)"

definition ends_with_ci :: "jsstring \<Rightarrow> jsstring \<Rightarrow> bool" where
  "ends_with_ci suffix p \<longleftrightarrow>
     length suffix \<le> length p \<and>
     map canonicalize (drop (length p - length suffix) p) = map canonicalize suffix"

text \<open>\<^verbatim>\<open>p.replace(/<suffix>$/i, "")\<close> for a literal suffix.\<close>

definition strip_suffix_ci :: "jsstring \<Rightarrow> jsstring \<Rightarrow> jsstring" where
  "strip_suffix_ci suffix p =
     (if ends_with_ci suffix p then take (length p - length suffix) p else p)"

section \<open>normalizePath\<close>

definition normalizePath :: "jsstring \<Rightarrow> jsstring" where
  "normalizePath path =
     (if path = [] then js ''/''
      else
        let p = before_query path;
            p = (if length p > 1 then strip_trailing_slashes p else p);
            p = (if p \<noteq> js ''/'' then strip_suffix_ci (js ''.html'') p else p);
            p = strip_suffix_ci (js ''/index'') p;
            p = (if length p > 1 then strip_trailing_slashes p else p);
            p = (if \<not> startsWith slash p then slash # p else p)
        in p)"

section \<open>decodeURIComponent\<close>

text \<open>
  The built-in follows the operation Decode of ECMA-262 with an empty set of preserved
  escapes. The only failure is the exception URIError.
\<close>

datatype error = URIError | Thrown jsstring

definition hex_digit :: "code_unit \<Rightarrow> nat option" where
  "hex_digit c =
     (if 0x30 \<le> c \<and> c \<le> 0x39 then Some (unat c - 0x30)
      else if 0x41 \<le> c \<and> c \<le> 0x46 then Some (unat c - 0x37)
      else if 0x61 \<le> c \<and> c \<le> 0x66 then Some (unat c - 0x57)
      else None)"

definition ParseHexOctet :: "code_unit \<Rightarrow> code_unit \<Rightarrow> nat option" where
  "ParseHexOctet a b =
     (case hex_digit a of None \<Rightarrow> None
      | Some x \<Rightarrow> (case hex_digit b of None \<Rightarrow> None | Some y \<Rightarrow> Some (16 * x + y)))"

definition leading_ones :: "nat \<Rightarrow> nat" where
  "leading_ones b =
     (if b < 0x80 then 0 else if b < 0xC0 then 1 else if b < 0xE0 then 2
      else if b < 0xF0 then 3 else if b < 0xF8 then 4 else 5)"

text \<open>The \<open>j\<close> escapes \<open>%XX\<close> that must follow the first octet of a longer sequence.\<close>

fun continuation_octets :: "nat \<Rightarrow> jsstring \<Rightarrow> (nat list \<times> jsstring) option" where
  "continuation_octets 0 s = Some ([], s)"
| "continuation_octets (Suc j) (p # a # b # rest) =
     (if p \<noteq> percent then None
      else (case ParseHexOctet a b of
              None \<Rightarrow> None
            | Some octet \<Rightarrow>
                (case continuation_octets j rest of
                   None \<Rightarrow> None
                 | Some (octets, rest') \<Rightarrow> Some (octet # octets, rest'))))"
| "continuation_octets (Suc j) [] = None"
| "continuation_octets (Suc j) [p] = None"
| "continuation_octets (Suc j) [p, a] = None"

definition is_continuation :: "nat \<Rightarrow> bool" where
  "is_continuation b \<longleftrightarrow> 0x80 \<le> b \<and> b \<le> 0xBF"

text \<open>The code point of a well-formed UTF-8 sequence of two to four octets.\<close>

fun utf8_code_point :: "nat list \<Rightarrow> nat option" where
  "utf8_code_point [b0, b1] =
     (let v = (b0 - 0xC0) * 64 + (b1 - 0x80)
      in if is_continuation b1 \<and> 0x80 \<le> v then Some v else None)"
| "utf8_code_point [b0, b1, b2] =
     (let v = (b0 - 0xE0) * 4096 + (b1 - 0x80) * 64 + (b2 - 0x80)
      in if is_continuation b1 \<and> is_continuation b2 \<and> 0x800 \<le> v
            \<and> \<not> (0xD800 \<le> v \<and> v \<le> 0xDFFF)
         then Some v else None)"
| "utf8_code_point [b0, b1, b2, b3] =
     (let v = (b0 - 0xF0) * 262144 + (b1 - 0x80) * 4096 + (b2 - 0x80) * 64 + (b3 - 0x80)
      in if is_continuation b1 \<and> is_continuation b2 \<and> is_continuation b3
            \<and> 0x10000 \<le> v \<and> v \<le> 0x10FFFF
         then Some v else None)"
| "utf8_code_point bs = None"

definition UTF16EncodeCodePoint :: "nat \<Rightarrow> jsstring" where
  "UTF16EncodeCodePoint v =
     (if v < 0x10000 then [of_nat v]
      else [of_nat (0xD800 + (v - 0x10000) div 1024), of_nat (0xDC00 + (v - 0x10000) mod 1024)])"

lemma continuation_octets_length:
  "continuation_octets j s = Some (octets, rest) \<Longrightarrow> length rest \<le> length s"
proof (induction j s arbitrary: octets rest rule: continuation_octets.induct)
  case (1 s)
  then show ?case by simp
next
  case (2 j p a b r)
  then show ?case
    by (fastforce split: if_splits option.splits)
qed simp_all

text \<open>
  What follows a percent sign: two hexadecimal digits, and for an octet with leading one
  bits the further escapes of its UTF-8 sequence. The result is the decoded code units
  and the rest of the string; \<open>None\<close> is the exception URIError.
\<close>

definition escape_sequence :: "jsstring \<Rightarrow> (jsstring \<times> jsstring) option" where
  "escape_sequence cs =
     (case cs of
        a # b # rest \<Rightarrow>
          (case ParseHexOctet a b of
             None \<Rightarrow> None
           | Some octet \<Rightarrow>
               if leading_ones octet = 0 then Some ([of_nat octet], rest)
               else if leading_ones octet = 1 \<or> leading_ones octet > 4 then None
               else
                 (case continuation_octets (leading_ones octet - 1) rest of
                    None \<Rightarrow> None
                  | Some (octets, rest') \<Rightarrow>
                      (case utf8_code_point (octet # octets) of
                         None \<Rightarrow> None
                       | Some v \<Rightarrow> Some (UTF16EncodeCodePoint v, rest'))))
      | _ \<Rightarrow> None)"

lemma escape_sequence_length:
  "escape_sequence cs = Some (units, rest) \<Longrightarrow> length rest < length cs"
  by (auto simp: escape_sequence_def split: list.splits option.splits if_splits
      dest: continuation_octets_length)

function decodeURIComponent :: "jsstring \<Rightarrow> error + jsstring" where
  "decodeURIComponent [] = Inr []"
| "decodeURIComponent (c # cs) =
     (if c \<noteq> percent then
        (case decodeURIComponent cs of Inl e \<Rightarrow> Inl e | Inr r \<Rightarrow> Inr (c # r))
      else
        (case escape_sequence cs of
           None \<Rightarrow> Inl URIError
         | Some (units, rest) \<Rightarrow>
             (case decodeURIComponent rest of Inl e \<Rightarrow> Inl e | Inr r \<Rightarrow> Inr (units @ r))))"
  by pat_completeness auto
termination
  by (relation "measure length") (auto dest: escape_sequence_length)

section \<open>parsePath\<close>

text \<open>\<^verbatim>\<open>s.split("/")\<close> and \<^verbatim>\<open>.filter(Boolean)\<close>, which drops the empty pieces.\<close>

fun split_js :: "code_unit \<Rightarrow> jsstring \<Rightarrow> jsstring list" where
  "split_js sep [] = [[]]"
| "split_js sep (c # cs) =
     (if c = sep then [] # split_js sep cs
      else (case split_js sep cs of [] \<Rightarrow> [[c]] | w # ws \<Rightarrow> (c # w) # ws))"

definition segments :: "jsstring \<Rightarrow> jsstring list" where
  "segments s = filter (\<lambda>w. w \<noteq> []) (split_js slash s)"

text \<open>\<^verbatim>\<open>xs.join("/")\<close>.\<close>

fun join_js :: "jsstring list \<Rightarrow> jsstring" where
  "join_js [] = []"
| "join_js [x] = x"
| "join_js (x # y # ys) = x @ slash # join_js (y # ys)"

text \<open>
  The parameter object is a plain object whose properties are listed in insertion order
  (JavaScript lists keys that are array indices first; no property here depends on that).
  An assignment \<^verbatim>\<open>params[key] = value\<close> of a string to the key \<open>__proto__\<close> reaches the
  setter of \<open>Object.prototype\<close>, which ignores a value that is neither an object nor
  null: no property is created.
\<close>

type_synonym params = "(jsstring \<times> jsstring) list"

definition assign_param :: "params \<Rightarrow> jsstring \<Rightarrow> jsstring \<Rightarrow> params" where
  "assign_param ps key v = (if key = js ''__proto__'' then ps else AList.update key v ps)"

text \<open>
  The loop of \<open>parsePath\<close> over the pattern segments. The first list holds the pattern
  segments from index \<open>i\<close> on, the second \<^verbatim>\<open>urlSeg.slice(i)\<close>; its head, when there is
  one, is \<^verbatim>\<open>urlSeg[i]\<close>, otherwise \<^verbatim>\<open>urlSeg[i]\<close> is undefined. \<open>Inr None\<close> is the result
  \<open>null\<close>.
\<close>

fun match_segments :: "jsstring list \<Rightarrow> jsstring list \<Rightarrow> params \<Rightarrow> error + params option" where
  "match_segments [] urlSeg ps = Inr (Some ps)"
| "match_segments (a # ptnSeg) urlSeg ps =
     (if a = js ''*'' then
        (case decodeURIComponent (join_js urlSeg) of
           Inl e \<Rightarrow> Inl e
         | Inr v \<Rightarrow> Inr (Some (assign_param ps (js ''*'') v)))
      else if startsWith colon a then
        (case urlSeg of
           [] \<Rightarrow> Inr None
         | b # urlSeg' \<Rightarrow>
             if b = [] then Inr None
             else (case decodeURIComponent b of
                     Inl e \<Rightarrow> Inl e
                   | Inr v \<Rightarrow> match_segments ptnSeg urlSeg' (assign_param ps (tl a) v)))
      else
        (case urlSeg of
           [] \<Rightarrow> Inr None
         | b # urlSeg' \<Rightarrow> if a \<noteq> b then Inr None else match_segments ptnSeg urlSeg' ps))"

definition hasWildcard :: "jsstring list \<Rightarrow> bool" where
  "hasWildcard ptnSeg \<longleftrightarrow> ptnSeg \<noteq> [] \<and> last ptnSeg = js ''*''"

definition parsePath :: "jsstring \<Rightarrow> jsstring \<Rightarrow> error + params option" where
  "parsePath pattern urlPath =
     (let ptn = normalizePath pattern;
          url = normalizePath urlPath;
          ptnSeg = segments ptn;
          urlSeg = segments url
      in if \<not> hasWildcard ptnSeg \<and> length ptnSeg \<noteq> length urlSeg then Inr None
         else if hasWildcard ptnSeg \<and> length urlSeg < length ptnSeg - 1 then Inr None
         else match_segments ptnSeg urlSeg [])"

subsection \<open>Auxiliary notions for the properties of the path resolver\<close>

text \<open>The single steps of \<open>normalizePath\<close>, named for the proofs.\<close>

definition trim :: "jsstring \<Rightarrow> jsstring" where
  "trim p = (if length p > 1 then strip_trailing_slashes p else p)"

definition drop_html :: "jsstring \<Rightarrow> jsstring" where
  "drop_html p = (if p \<noteq> js ''/'' then strip_suffix_ci (js ''.html'') p else p)"

definition lead :: "jsstring \<Rightarrow> jsstring" where
  "lead p = (if \<not> startsWith slash p then slash # p else p)"

text \<open>
  The index at which the loop of \<open>parsePath\<close> reaches a wildcard segment: the first
  pattern segment that is exactly \<open>*\<close>.
\<close>

definition wildcard_index :: "jsstring list \<Rightarrow> nat" where
  "wildcard_index ptnSeg = length (takeWhile (\<lambda>a. a \<noteq> js ''*'') ptnSeg)"

text \<open>A pattern segment that is compared literally: no wildcard and no parameter.\<close>

definition literal_segment :: "jsstring \<Rightarrow> bool" where
  "literal_segment a \<longleftrightarrow> a \<noteq> js ''*'' \<and> \<not> startsWith colon a"

section \<open>Values, objects and collaborators\<close>

text \<open>
  The values that the router stores and passes on: strings, booleans, \<open>null\<close>,
  \<open>undefined\<close>, caught errors and plain objects. An object lists its own properties in
  insertion order.
\<close>

datatype jsval =
    VUndefined
  | VNull
  | VBool bool
  | VStr jsstring
  | VError error
  | VObject "(jsstring \<times> jsval) list"

type_synonym jsobject = "(jsstring \<times> jsval) list"

text \<open>The object literal \<^verbatim>\<open>{ ...a, ...b }\<close>: the properties of \<open>a\<close>, then those of \<open>b\<close>.\<close>

definition spread :: "jsobject \<Rightarrow> jsobject \<Rightarrow> jsobject" where
  "spread a b = foldl (\<lambda>obj (k, v). AList.update k v obj) [] (a @ b)"

text \<open>Reading a property: \<^verbatim>\<open>obj.key\<close> is \<open>undefined\<close> when the object has no such key.\<close>

definition get_property :: "jsobject \<Rightarrow> jsstring \<Rightarrow> jsval" where
  "get_property obj key = (case map_of obj key of None \<Rightarrow> VUndefined | Some v \<Rightarrow> v)"

definition truthy :: "jsval \<Rightarrow> bool" where
  "truthy v =
     (case v of
        VUndefined \<Rightarrow> False
      | VNull \<Rightarrow> False
      | VBool b \<Rightarrow> b
      | VStr s \<Rightarrow> s \<noteq> []
      | VError e \<Rightarrow> True
      | VObject obj \<Rightarrow> True)"

text \<open>\<^verbatim>\<open>a || b\<close>.\<close>

definition js_or :: "jsval \<Rightarrow> jsval \<Rightarrow> jsval" where
  "js_or a b = (if truthy a then a else b)"

text \<open>
  \<^verbatim>\<open>String(err)\<close> for a caught value: \<open>Thrown s\<close> stands for a thrown value whose
  conversion to a string is \<open>s\<close>.
\<close>

definition String_of_error :: "error \<Rightarrow> jsstring" where
  "String_of_error e = (case e of URIError \<Rightarrow> js ''URIError: URI malformed'' | Thrown s \<Rightarrow> s)"

text \<open>The conversion to a string of a value assigned to \<^verbatim>\<open>document.title\<close>.\<close>

definition ToString :: "jsval \<Rightarrow> jsstring" where
  "ToString v =
     (case v of
        VUndefined \<Rightarrow> js ''undefined''
      | VNull \<Rightarrow> js ''null''
      | VBool b \<Rightarrow> (if b then js ''true'' else js ''false'')
      | VStr s \<Rightarrow> s
      | VError e \<Rightarrow> String_of_error e
      | VObject obj \<Rightarrow> js ''[object Object]'')"

definition params_object :: "params \<Rightarrow> jsval" where
  "params_object ps = VObject (map (\<lambda>(k, v). (k, VStr v)) ps)"

text \<open>
  What a route handler returns once awaited, as the branches of \<open>navigate\<close> tell the
  results apart: \<open>null\<close> or \<open>undefined\<close>, a string, an object, or a value of another type
  (a number, a boolean, a function). A handler that throws or rejects is \<open>Inl\<close>.
\<close>

datatype handler_result = RNullish | RString jsstring | RObject jsobject | ROther

type_synonym handler = "params \<Rightarrow> error + handler_result"

text \<open>
  The browser's \<open>fetch\<close> followed by \<^verbatim>\<open>res.text()\<close>: the request is rejected (a network
  error), or it is answered with a response of some status whose text is read or whose
  reading fails. A response with a status outside 200 to 299 is a response, not a
  rejection.
\<close>

datatype fetch_outcome = Rejected error | Response nat "error + jsstring"

text \<open>
  The document that \<open>DOMParser\<close> builds from a response text. Its \<open>querySelector\<close>
  finds the markup of an element, finds none, or throws (a selector that is not valid
  throws a SyntaxError).
\<close>

record parsed_document =
  doc_title :: jsstring
  doc_querySelector :: "jsstring \<Rightarrow> error + jsstring option"
  doc_body :: "jsstring option"

text \<open>
  The code of the page and of the browser that the router calls: the network, the parser,
  and the listeners registered with \<open>on\<close>. A listener is known by a number; called with
  a payload it returns normally (\<open>None\<close>) or throws.
\<close>

record collaborators =
  fetch :: "jsstring \<Rightarrow> (jsstring \<times> jsstring) list \<Rightarrow> fetch_outcome"
  parseFromString :: "jsstring \<Rightarrow> parsed_document"
  listener :: "nat \<Rightarrow> jsval \<Rightarrow> error option"

text \<open>
  The calls that leave the router, in the order they are made: a request, a listener
  registered with \<open>on\<close> called with a payload, the handler of a route called with the
  parameters, the debug message of a failed prefetch, the scripts of the rendered
  container, and the history entries.

  A handler is a function of the parameters it is called with, which returns a result or
  throws. Neither a handler nor a listener changes the router while it runs. Every
  asynchronous call runs to its end before the next one starts: the model has no
  interleaving of a navigation with a prefetch.
\<close>

datatype effect =
    Fetch jsstring "(jsstring \<times> jsstring) list"
  | Listener nat jsval
  | Handler jsstring params
  | ConsoleDebug jsstring error
  | ExecuteScripts
  | PushState jsval jsstring
  | ReplaceState jsval jsstring

section \<open>parseHTML\<close>

definition parseHTML :: "collaborators \<Rightarrow> jsstring \<Rightarrow> jsstring \<Rightarrow> error + jsobject" where
  "parseHTML env htmlString contentSelector =
     (let doc = parseFromString env htmlString;
          title = doc_title doc
      in (case doc_querySelector doc contentSelector of
            Inl err \<Rightarrow> Inl err
          | Inr contentEl \<Rightarrow>
              let body = (case contentEl of
                            Some inner \<Rightarrow> inner
                          | None \<Rightarrow> (case doc_body doc of Some inner \<Rightarrow> inner | None \<Rightarrow> htmlString))
              in Inr [(js ''title'', VStr title), (js ''body'', VStr body)]))"

section \<open>MiniRouter\<close>

text \<open>
  The fields of the class, followed by the part of the page it acts on: the trace of its
  calls, the document title, the markup of the element \<open>#app\<close> when there is one, the
  pending timers with the link address each will prefetch, the next timer handle, and
  whether the constructor has installed the hover listeners. A link is known to the
  bookkeeping map by its identity.
\<close>

record router =
  cache :: "(jsstring \<times> jsobject) list"
  routes :: "(jsstring \<times> handler) list"
  events :: "(jsstring \<times> nat list) list"
  htmlExtension :: bool
  interceptAllLinks :: bool
  contentSelector :: jsstring
  prefetchOnHover :: bool
  prefetchDelay :: int
  prefetchTimeouts :: "(nat \<times> nat) list"
  trace :: "effect list"
  document_title :: jsstring
  app_container :: "jsstring option"
  timers :: "(nat \<times> jsstring) list"
  next_timer :: nat
  mouseenter_installed :: bool
  mouseleave_installed :: bool

definition endsWith :: "jsstring \<Rightarrow> jsstring \<Rightarrow> bool" where
  "endsWith suffix s \<longleftrightarrow>
     length suffix \<le> length s \<and> drop (length s - length suffix) s = suffix"

definition normalizeUrl :: "router \<Rightarrow> jsstring \<Rightarrow> jsstring" where
  "normalizeUrl s url =
     (let clean = before_query url
      in if htmlExtension s \<and> \<not> endsWith (js ''.html'') clean \<and> clean \<noteq> js ''/''
         then clean @ js ''.html'' else clean)"

text \<open>
  The field \<open>events\<close> is a plain object, so \<^verbatim>\<open>this.events[event]\<close> finds a property of
  \<open>Object.prototype\<close> under each of the names below. None of them is an array: \<open>on\<close>
  leaves it in place and fails to call its \<open>push\<close>, \<open>emit\<close> fails to call its
  \<open>forEach\<close>, both with a TypeError (here with the message of V8).
\<close>

definition Object_prototype_names :: "jsstring list" where
  "Object_prototype_names =
     [js ''constructor'', js ''__defineGetter__'', js ''__defineSetter__'',
      js ''hasOwnProperty'', js ''__lookupGetter__'', js ''__lookupSetter__'',
      js ''isPrototypeOf'', js ''propertyIsEnumerable'', js ''toString'', js ''valueOf'',
      js ''__proto__'', js ''toLocaleString'']"

definition listeners :: "router \<Rightarrow> jsstring \<Rightarrow> nat list" where
  "listeners s event = (case map_of (events s) event of None \<Rightarrow> [] | Some cbs \<Rightarrow> cbs)"

definition on :: "router \<Rightarrow> jsstring \<Rightarrow> nat \<Rightarrow> error + router" where
  "on s event cb =
     (if event \<in> set Object_prototype_names
      then Inl (Thrown (js ''TypeError: this.events[event].push is not a function''))
      else Inr (s\<lparr>events := AList.update event (listeners s event @ [cb]) (events s)\<rparr>))"

text \<open>
  \<^verbatim>\<open>cbs.forEach((cb) => cb(payload))\<close>: the listeners are called in the order of their
  subscription, up to the first that throws. The result is the calls made and the
  exception, if any.
\<close>

fun call_listeners ::
  "(nat \<Rightarrow> jsval \<Rightarrow> error option) \<Rightarrow> nat list \<Rightarrow> jsval \<Rightarrow> effect list \<times> error option" where
  "call_listeners run [] payload = ([], None)"
| "call_listeners run (cb # cbs) payload =
     (case run cb payload of
        Some err \<Rightarrow> ([Listener cb payload], Some err)
      | None \<Rightarrow>
          (case call_listeners run cbs payload of
             (calls, outcome) \<Rightarrow> (Listener cb payload # calls, outcome)))"

definition emit :: "collaborators \<Rightarrow> router \<Rightarrow> jsstring \<Rightarrow> jsval \<Rightarrow> (error + unit) \<times> router" where
  "emit env s event payload =
     (if event \<in> set Object_prototype_names
      then (Inl (Thrown (js ''TypeError: this.events[event].forEach is not a function'')), s)
      else (case call_listeners (listener env) (listeners s event) payload of
              (calls, outcome) \<Rightarrow>
                ((case outcome of None \<Rightarrow> Inr () | Some err \<Rightarrow> Inl err),
                 s\<lparr>trace := trace s @ calls\<rparr>)))"

definition route :: "router \<Rightarrow> jsstring \<Rightarrow> handler \<Rightarrow> router" where
  "route s pattern callback = s\<lparr>routes := AList.update pattern callback (routes s)\<rparr>"

text \<open>The text of a request: what the \<open>try\<close> block of \<open>fetchPage\<close> awaits first.\<close>

definition response_text :: "fetch_outcome \<Rightarrow> error + jsstring" where
  "response_text outcome = (case outcome of Rejected err \<Rightarrow> Inl err | Response status text \<Rightarrow> text)"

definition request_headers :: "bool \<Rightarrow> (jsstring \<times> jsstring) list" where
  "request_headers isPrefetch =
     (js ''X-Requested-With'', js ''mini-router'')
       # (if isPrefetch then [(js ''Purpose'', js ''prefetch'')] else [])"

definition fallback :: "error \<Rightarrow> jsobject" where
  "fallback err =
     [(js ''title'', VStr (js ''Error'')),
      (js ''body'', VStr (js ''<h1>Network Error</h1><pre>'' @ String_of_error err @ js ''</pre>''))]"

text \<open>
  The \<open>try\<close> block of \<open>fetchPage\<close>, entered after the request has been issued: the text
  is awaited and parsed, the page is cached, and a prefetch tells its listeners. Each of
  these steps but the caching can throw.
\<close>

definition fetchPage_try ::
  "collaborators \<Rightarrow> router \<Rightarrow> jsstring \<Rightarrow> bool \<Rightarrow> (error + jsobject) \<times> router" where
  "fetchPage_try env s url isPrefetch =
     (case response_text (fetch env url (request_headers isPrefetch)) of
        Inl err \<Rightarrow> (Inl err, s)
      | Inr text \<Rightarrow>
          (case parseHTML env text (contentSelector s) of
             Inl err \<Rightarrow> (Inl err, s)
           | Inr data \<Rightarrow>
               let s1 = s\<lparr>cache := AList.update url data (cache s)\<rparr>
               in if isPrefetch then
                    (case emit env s1 (js ''prefetch'')
                            (VObject [(js ''url'', VStr url), (js ''data'', VObject data)]) of
                       (Inl err, s2) \<Rightarrow> (Inl err, s2)
                     | (Inr u, s2) \<Rightarrow> (Inr data, s2))
                  else (Inr data, s1)))"

definition fetchPage :: "collaborators \<Rightarrow> router \<Rightarrow> jsstring \<Rightarrow> bool \<Rightarrow> (error + jsobject) \<times> router" where
  "fetchPage env s url isPrefetch =
     (case map_of (cache s) url of
        Some data \<Rightarrow> (Inr data, s)
      | None \<Rightarrow>
          (case fetchPage_try env (s\<lparr>trace := trace s @ [Fetch url (request_headers isPrefetch)]\<rparr>)
                  url isPrefetch of
             (Inr data, s1) \<Rightarrow> (Inr data, s1)
           | (Inl err, s1) \<Rightarrow>
               if isPrefetch then
                 (case emit env s1 (js ''prefetch:error'')
                         (VObject [(js ''url'', VStr url), (js ''error'', VError err)]) of
                    (Inl err', s2) \<Rightarrow> (Inl err', s2)
                  | (Inr u, s2) \<Rightarrow> (Inl err, s2))
               else
                 (Inr (fallback err), s1\<lparr>cache := AList.update url (fallback err) (cache s1)\<rparr>)))"

definition prefetch :: "collaborators \<Rightarrow> router \<Rightarrow> jsstring \<Rightarrow> (error + unit) \<times> router" where
  "prefetch env s url =
     (if map_of (cache s) url \<noteq> None then (Inr (), s)
      else (case fetchPage env s url True of
              (Inr data, s') \<Rightarrow> (Inr (), s')
            | (Inl err, s') \<Rightarrow> (Inr (), s'\<lparr>trace := trace s' @ [ConsoleDebug url err]\<rparr>)))"

text \<open>The effect of a handler's result on the content: lines 248 to 254 of \<open>navigate\<close>.\<close>

definition override :: "jsobject \<Rightarrow> handler_result \<Rightarrow> jsobject" where
  "override finalData result =
     (case result of
        RNullish \<Rightarrow> finalData
      | RString str \<Rightarrow> AList.update (js ''body'') (VStr str) finalData
      | RObject obj \<Rightarrow> spread finalData obj
      | ROther \<Rightarrow> finalData)"

text \<open>
  The loop of \<open>navigate\<close> over the entries of the route map, from the entries that are
  left, the content so far and the router. An exception of a match attempt, of a handler
  or of a listener of the route's event ends the loop and the navigation.
\<close>

fun run_routes ::
  "collaborators \<Rightarrow> (jsstring \<times> handler) list \<Rightarrow> jsstring \<Rightarrow> jsstring \<Rightarrow> jsobject \<Rightarrow> router
     \<Rightarrow> (error + jsobject) \<times> router" where
  "run_routes env [] url matchUrl finalData s = (Inr finalData, s)"
| "run_routes env ((pattern, callback) # entries) url matchUrl finalData s =
     (case parsePath pattern matchUrl of
        Inl err \<Rightarrow> (Inl err, s)
      | Inr None \<Rightarrow> run_routes env entries url matchUrl finalData s
      | Inr (Some ps) \<Rightarrow>
          let ctx = spread [(js ''url'', VStr url)] finalData;
              s1 = s\<lparr>trace := trace s @ [Handler pattern ps]\<rparr>
          in (case callback ps of
                Inl err \<Rightarrow> (Inl err, s1)
              | Inr result \<Rightarrow>
                  let finalData' = override finalData result
                  in (case emit env s1 (js ''route:'' @ pattern)
                             (VObject (spread ctx [(js ''params'', params_object ps)])) of
                        (Inl err, s2) \<Rightarrow> (Inl err, s2)
                      | (Inr u, s2) \<Rightarrow> run_routes env entries url matchUrl finalData' s2)))"

text \<open>
  The rendering of \<open>navigate\<close>: the listeners of the event \<open>navigate\<close> render, or the
  default rendering does.
\<close>

definition render :: "collaborators \<Rightarrow> router \<Rightarrow> jsobject \<Rightarrow> (error + unit) \<times> router" where
  "render env s payload =
     (if listeners s (js ''navigate'') \<noteq> [] then emit env s (js ''navigate'') (VObject payload)
      else
        let s1 = (if truthy (get_property payload (js ''title''))
                  then s\<lparr>document_title := ToString (get_property payload (js ''title''))\<rparr>
                  else s)
        in (case app_container s1 of
              None \<Rightarrow> (Inr (), s1)
            | Some inner \<Rightarrow>
                (case get_property payload (js ''body'') of
                   VStr body \<Rightarrow>
                     (Inr (), s1\<lparr>app_container := Some body, trace := trace s1 @ [ExecuteScripts]\<rparr>)
                 | _ \<Rightarrow> (Inr (), s1))))"

text \<open>The history entry that ends \<open>navigate\<close>.\<close>

definition update_history :: "router \<Rightarrow> jsobject \<Rightarrow> jsstring \<Rightarrow> bool \<Rightarrow> router" where
  "update_history s finalData rawUrl replace =
     (let title = js_or (get_property finalData (js ''title''))
                    (js_or (VStr (document_title s)) (VStr []))
      in s\<lparr>trace := trace s @ [if replace then ReplaceState title rawUrl else PushState title rawUrl]\<rparr>)"

definition navigate :: "collaborators \<Rightarrow> router \<Rightarrow> jsstring \<Rightarrow> bool \<Rightarrow> (error + unit) \<times> router" where
  "navigate env s rawUrl replace =
     (let url = rawUrl;
          matchUrl = normalizeUrl s rawUrl
      in (case fetchPage env s rawUrl False of
            (Inl err, s1) \<Rightarrow> (Inl err, s1)
          | (Inr data, s1) \<Rightarrow>
              (case run_routes env (routes s1) url matchUrl (spread data []) s1 of
                 (Inl err, s2) \<Rightarrow> (Inl err, s2)
               | (Inr finalData, s2) \<Rightarrow>
                   let payload = spread [(js ''url'', VStr url)] finalData
                   in (case render env s2 payload of
                         (Inl err, s3) \<Rightarrow> (Inl err, s3)
                       | (Inr u, s3) \<Rightarrow> (Inr (), update_history s3 finalData rawUrl replace)))))"

section \<open>Prefetch on hover\<close>

text \<open>
  An element that \<^verbatim>\<open>e.target.closest("a[href], [data-link]")\<close> finds: its identity, its
  tag name, its attributes, and what \<^verbatim>\<open>new URL(href, location.origin)\<close> makes of its
  address (the browser decides that).
\<close>

datatype url_resolution = SameOrigin | CrossOrigin | InvalidURL

record link =
  link_id :: nat
  tagName :: jsstring
  attributes :: "(jsstring \<times> jsstring) list"
  resolution :: url_resolution

definition getAttribute :: "link \<Rightarrow> jsstring \<Rightarrow> jsstring option" where
  "getAttribute l name = map_of (attributes l) name"

definition hasAttribute :: "link \<Rightarrow> jsstring \<Rightarrow> bool" where
  "hasAttribute l name \<longleftrightarrow> map_of (attributes l) name \<noteq> None"

text \<open>
  \<open>toLowerCase\<close>, exact on every code unit whose lower case contains an ASCII letter: the
  letters A to Z, the Kelvin sign and the dotted capital I. The results are only compared
  with ASCII text, which no other code unit can produce.
\<close>

definition toLowerCase :: "jsstring \<Rightarrow> jsstring" where
  "toLowerCase s =
     concat (map (\<lambda>c. if 0x41 \<le> c \<and> c \<le> 0x5A then [c + 0x20]
                       else if c = 0x212A then [0x6B]
                       else if c = 0x130 then [0x69, 0x307]
                       else [c]) s)"

fun string_includes :: "jsstring \<Rightarrow> jsstring \<Rightarrow> bool" where
  "string_includes sub [] = (sub = [])"
| "string_includes sub (c # cs) = (take (length sub) (c # cs) = sub \<or> string_includes sub cs)"

definition attribute_or_empty :: "link \<Rightarrow> jsstring \<Rightarrow> jsstring" where
  "attribute_or_empty l name = (case getAttribute l name of None \<Rightarrow> [] | Some v \<Rightarrow> v)"

text \<open>The constructor: the options, and the page the router is created on.\<close>

definition MiniRouter ::
  "bool \<Rightarrow> bool \<Rightarrow> jsstring \<Rightarrow> bool \<Rightarrow> int \<Rightarrow> jsstring \<Rightarrow> jsstring option \<Rightarrow> router" where
  "MiniRouter html intercept selector hover delay title container =
     \<lparr>cache = [], routes = [], events = [],
      htmlExtension = html, interceptAllLinks = intercept, contentSelector = selector,
      prefetchOnHover = hover, prefetchDelay = delay, prefetchTimeouts = [],
      trace = [], document_title = title, app_container = container,
      timers = [], next_timer = 1,
      mouseenter_installed = hover,
      mouseleave_installed = (hover \<and> delay > 0)\<rparr>"

definition clearTimeout :: "router \<Rightarrow> nat \<Rightarrow> router" where
  "clearTimeout s timeoutId = s\<lparr>timers := filter (\<lambda>(i, href). i \<noteq> timeoutId) (timers s)\<rparr>"

text \<open>The listener for \<open>mouseenter\<close> that \<open>_initPrefetchHandler\<close> adds to the document.\<close>

definition mouseenter_listener :: "collaborators \<Rightarrow> router \<Rightarrow> link option \<Rightarrow> router" where
  "mouseenter_listener env s target =
     (case target of
        None \<Rightarrow> s
      | Some l \<Rightarrow>
          (case getAttribute l (js ''href'') of
             None \<Rightarrow> s
           | Some href \<Rightarrow>
               if href = [] then s
               else if tagName l = js ''A'' \<and>
                       (toLowerCase (attribute_or_empty l (js ''target'')) = js ''_blank''
                        \<or> hasAttribute l (js ''download'')
                        \<or> string_includes (js ''external'')
                             (toLowerCase (attribute_or_empty l (js ''rel'')))
                        \<or> resolution l \<noteq> SameOrigin)
               then s
               else if hasAttribute l (js ''data-no-prefetch'') then s
               else if prefetchDelay s = 0 then snd (prefetch env s href)
               else
                 let timeoutId = next_timer s;
                     s1 = s\<lparr>timers := timers s @ [(timeoutId, href)], next_timer := timeoutId + 1\<rparr>
                 in s1\<lparr>prefetchTimeouts := AList.update (link_id l) timeoutId (prefetchTimeouts s1)\<rparr>))"

text \<open>The listener for \<open>mouseleave\<close>, added only when the delay is positive.\<close>

definition mouseleave_listener :: "router \<Rightarrow> link option \<Rightarrow> router" where
  "mouseleave_listener s target =
     (case target of
        None \<Rightarrow> s
      | Some l \<Rightarrow>
          (case map_of (prefetchTimeouts s) (link_id l) of
             None \<Rightarrow> s
           | Some timeoutId \<Rightarrow>
               if timeoutId = 0 then s
               else (clearTimeout s timeoutId)
                      \<lparr>prefetchTimeouts := AList.delete (link_id l) (prefetchTimeouts s)\<rparr>))"

text \<open>
  What the page does with the router: the pointer enters or leaves an element, and a
  pending timer fires and runs its callback, the prefetch of the link's address.
\<close>

definition mouseenter :: "collaborators \<Rightarrow> router \<Rightarrow> link option \<Rightarrow> router" where
  "mouseenter env s target = (if mouseenter_installed s then mouseenter_listener env s target else s)"

definition mouseleave :: "router \<Rightarrow> link option \<Rightarrow> router" where
  "mouseleave s target = (if mouseleave_installed s then mouseleave_listener s target else s)"

definition timer_fires :: "collaborators \<Rightarrow> router \<Rightarrow> nat \<Rightarrow> router" where
  "timer_fires env s timeoutId =
     (case map_of (timers s) timeoutId of
        None \<Rightarrow> s
      | Some href \<Rightarrow> snd (prefetch env (clearTimeout s timeoutId) href))"

definition setPrefetchOnHover :: "router \<Rightarrow> bool \<Rightarrow> router" where
  "setPrefetchOnHover s enabled =
     (let s1 = s\<lparr>prefetchOnHover := enabled\<rparr>
      in if \<not> enabled
         then (foldl clearTimeout s1 (map snd (prefetchTimeouts s1)))\<lparr>prefetchTimeouts := []\<rparr>
         else s1)"

definition clearCache :: "router \<Rightarrow> jsstring option \<Rightarrow> router" where
  "clearCache s url =
     (case url of
        None \<Rightarrow> s\<lparr>cache := []\<rparr>
      | Some u \<Rightarrow> if u \<noteq> [] then s\<lparr>cache := AList.delete u (cache s)\<rparr> else s\<lparr>cache := []\<rparr>)"

section \<open>Auxiliary notions for the properties of the router\<close>

text \<open>The requests and the handler calls among the calls of a trace.\<close>

definition fetches :: "effect list \<Rightarrow> jsstring list" where
  "fetches t = concat (map (\<lambda>e. case e of Fetch url headers \<Rightarrow> [url] | _ \<Rightarrow> []) t)"

definition handler_calls :: "effect list \<Rightarrow> (jsstring \<times> params) list" where
  "handler_calls t = concat (map (\<lambda>e. case e of Handler pattern ps \<Rightarrow> [(pattern, ps)] | _ \<Rightarrow> []) t)"

text \<open>
  The routes that match a URL, in the order of the route map, each with its parameters
  and the result of its handler; written from the words of the specification, for
  comparison with the loop of \<open>navigate\<close>.
\<close>

definition matching_routes ::
  "(jsstring \<times> handler) list \<Rightarrow> jsstring \<Rightarrow> (jsstring \<times> params \<times> (error + handler_result)) list" where
  "matching_routes entries matchUrl =
     concat (map (\<lambda>(pattern, callback).
                    case parsePath pattern matchUrl of
                      Inr (Some ps) \<Rightarrow> [(pattern, ps, callback ps)]
                    | _ \<Rightarrow> []) entries)"

definition result_of :: "jsstring \<times> params \<times> (error + handler_result) \<Rightarrow> handler_result" where
  "result_of m = (case snd (snd m) of Inl err \<Rightarrow> RNullish | Inr result \<Rightarrow> result)"

text \<open>
  The route events of the matching routes: each carries the URL, the content as the
  earlier handlers have left it, and the parameters.
\<close>

fun route_events ::
  "(jsstring \<Rightarrow> nat list) \<Rightarrow> jsstring \<Rightarrow> jsobject
     \<Rightarrow> (jsstring \<times> params \<times> (error + handler_result)) list \<Rightarrow> effect list" where
  "route_events subscribed url content [] = []"
| "route_events subscribed url content (m # ms) =
     Handler (fst m) (fst (snd m))
       # map (\<lambda>cb. Listener cb
                (VObject (spread (spread [(js ''url'', VStr url)] content)
                   [(js ''params'', params_object (fst (snd m)))])))
           (subscribed (js ''route:'' @ fst m))
       @ route_events subscribed url (override content (result_of m)) ms"

text \<open>Every listener of a list returns normally when called with a payload.\<close>

definition listeners_return :: "collaborators \<Rightarrow> nat list \<Rightarrow> jsval \<Rightarrow> bool" where
  "listeners_return env cbs payload \<longleftrightarrow> list_all (\<lambda>cb. listener env cb payload = None) cbs"

text \<open>
  Nothing throws in the loop over the routes: no attempt to match a route, no handler of
  a matching route, and no listener of a matching route's event when it is called with
  the context of that route.
\<close>

fun no_throw ::
  "collaborators \<Rightarrow> (jsstring \<Rightarrow> nat list) \<Rightarrow> (jsstring \<times> handler) list \<Rightarrow> jsstring \<Rightarrow> jsstring
     \<Rightarrow> jsobject \<Rightarrow> bool" where
  "no_throw env subscribed [] url matchUrl content = True"
| "no_throw env subscribed ((pattern, callback) # entries) url matchUrl content =
     (case parsePath pattern matchUrl of
        Inl err \<Rightarrow> False
      | Inr None \<Rightarrow> no_throw env subscribed entries url matchUrl content
      | Inr (Some ps) \<Rightarrow>
          (case callback ps of
             Inl err \<Rightarrow> False
           | Inr result \<Rightarrow>
               listeners_return env (subscribed (js ''route:'' @ pattern))
                 (VObject (spread (spread [(js ''url'', VStr url)] content)
                    [(js ''params'', params_object ps)]))
               \<and> no_throw env subscribed entries url matchUrl (override content result)))"

text \<open>
  The content after the loop, and whether a navigation that starts from the content
  \<open>data\<close> runs to its end: nothing throws in the loop, and no listener of the event
  \<open>navigate\<close> throws when it is called with the final payload.
\<close>

definition final_content :: "router \<Rightarrow> jsstring \<Rightarrow> jsobject \<Rightarrow> jsobject" where
  "final_content s rawUrl data =
     foldl override (spread data [])
       (map result_of (matching_routes (routes s) (normalizeUrl s rawUrl)))"

definition navigation_quiet :: "collaborators \<Rightarrow> router \<Rightarrow> jsstring \<Rightarrow> jsobject \<Rightarrow> bool" where
  "navigation_quiet env s rawUrl data \<longleftrightarrow>
     no_throw env (listeners s) (routes s) rawUrl (normalizeUrl s rawUrl) (spread data [])
     \<and> listeners_return env (listeners s (js ''navigate''))
         (VObject (spread [(js ''url'', VStr rawUrl)] (final_content s rawUrl data)))"

section \<open>Example runs\<close>

text \<open>
  A network that rejects the request for \<open>/broken\<close>, answers \<open>/missing\<close> with status 404
  and everything else with status 200, a parser that finds a title and a body, and
  listeners that return normally, except listener 13, which throws.
\<close>

definition example_collaborators :: collaborators where
  "example_collaborators =
     \<lparr>fetch = (\<lambda>url headers.
         if url = js ''/broken'' then Rejected (Thrown (js ''TypeError: Failed to fetch''))
         else if url = js ''/missing'' then Response 404 (Inr (js ''<h1>Not Found</h1>''))
         else Response 200 (Inr (js ''<p>page</p>''))),
      parseFromString = (\<lambda>text.
         \<lparr>doc_title = (if text = js ''<h1>Not Found</h1>'' then js ''Not Found'' else js ''Page''),
          doc_querySelector = (\<lambda>selector. Inr None),
          doc_body = Some text\<rparr>),
      listener = (\<lambda>cb payload. if cb = 13 then Some (Thrown (js ''Error: listener failed'')) else None)\<rparr>"

text \<open>A router with the default options on a page titled \<open>Home\<close> with an empty \<open>#app\<close>.\<close>

definition default_router :: router where
  "default_router = MiniRouter True True (js ''#app'') True 0 (js ''Home'') (Some [])"

text \<open>The same router after \<^verbatim>\<open>on("prefetch:error", ...)\<close> for listener 3.\<close>

definition watched_router :: router where
  "watched_router = default_router\<lparr>events := [(js ''prefetch:error'', [3])]\<rparr>"

text \<open>
  The routes \<open>/posts/:id\<close> and \<open>/posts/*\<close>, registered in this order; the first handler
  returns \<^verbatim>\<open>{title: "A"}\<close>, the second \<^verbatim>\<open>"B"\<close>.
\<close>

definition posts_routes :: router where
  "posts_routes =
     route (route default_router
              (js ''/posts/:id'') (\<lambda>ps. Inr (RObject [(js ''title'', VStr (js ''A''))])))
       (js ''/posts/*'') (\<lambda>ps. Inr (RString (js ''B'')))"

text \<open>These routes with listener 1 subscribed to the event of the second route.\<close>

definition posts_router :: router where
  "posts_router = posts_routes\<lparr>events := [(js ''route:/posts/*'', [1])]\<rparr>"

text \<open>These routes with listener 13, which throws, subscribed to the event of the first.\<close>

definition noisy_router :: router where
  "noisy_router = posts_routes\<lparr>events := [(js ''route:/posts/:id'', [13])]\<rparr>"



definition about_link :: link where
  "about_link =
     \<lparr>link_id = 7, tagName = js ''A'', attributes = [(js ''href'', js ''/about'')],
      resolution = SameOrigin\<rparr>"

text \<open>The default router with a prefetch delay of 150 milliseconds.\<close>

definition delayed_router :: router where
  "delayed_router = MiniRouter True True (js ''#app'') True 150 (js ''Home'') (Some [])"

section \<open>Properties of normalizePath\<close>

lemma normalizePath_steps:
  "normalizePath path =
     (if path = [] then js ''/''
      else lead (trim (strip_suffix_ci (js ''/index'') (drop_html (trim (before_query path))))))"
  by (simp only: normalizePath_def trim_def drop_html_def lead_def Let_def)

lemma set_strip_trailing_slashes: "set (strip_trailing_slashes p) \<subseteq> set p"
  using set_dropWhileD [of _ "\<lambda>c. c = slash" "rev p"]
  by (auto simp: strip_trailing_slashes_def)

lemma length_strip_trailing_slashes: "length (strip_trailing_slashes p) \<le> length p"
  using length_dropWhile_le [of "\<lambda>c. c = slash" "rev p"]
  by (simp add: strip_trailing_slashes_def)

lemma last_strip_trailing_slashes:
  "strip_trailing_slashes p \<noteq> [] \<Longrightarrow> last (strip_trailing_slashes p) \<noteq> slash"
  using hd_dropWhile [of "\<lambda>c. c = slash" "rev p"]
  by (simp add: strip_trailing_slashes_def last_rev)

lemma strip_trailing_slashes_id:
  "p \<noteq> [] \<Longrightarrow> last p \<noteq> slash \<Longrightarrow> strip_trailing_slashes p = p"
  by (cases p rule: rev_cases) (simp_all add: strip_trailing_slashes_def)

lemma set_trim: "set (trim p) \<subseteq> set p"
  using set_strip_trailing_slashes [of p] by (simp add: trim_def)

lemma length_trim: "length (trim p) \<le> length p"
  using length_strip_trailing_slashes [of p] by (simp add: trim_def)

lemma trim_id: "(length q > 1 \<longrightarrow> last q \<noteq> slash) \<Longrightarrow> trim q = q"
  by (cases "q = []") (simp_all add: trim_def strip_trailing_slashes_id)

lemma set_strip_suffix_ci: "set (strip_suffix_ci s p) \<subseteq> set p"
  by (auto simp: strip_suffix_ci_def dest: in_set_takeD)

lemma length_strip_suffix_ci: "length (strip_suffix_ci s p) \<le> length p"
  by (simp add: strip_suffix_ci_def)

lemma length_strip_suffix_ci_ends:
  "ends_with_ci s p \<Longrightarrow> length (strip_suffix_ci s p) + length s = length p"
  by (simp add: strip_suffix_ci_def ends_with_ci_def)

lemma strip_suffix_ci_id: "\<not> ends_with_ci s p \<Longrightarrow> strip_suffix_ci s p = p"
  by (simp add: strip_suffix_ci_def)

lemma set_drop_html: "set (drop_html p) \<subseteq> set p"
  using set_strip_suffix_ci [of "js ''.html''" p] by (simp add: drop_html_def)

lemma length_lead: "length (lead p) \<le> Suc (length p)"
  by (simp add: lead_def)

lemma set_lead: "set (lead p) \<subseteq> insert slash (set p)"
  by (auto simp: lead_def)

lemma startsWith_lead: "startsWith slash (lead p)"
  by (simp add: lead_def startsWith_def)

lemma lead_id: "startsWith slash q \<Longrightarrow> lead q = q"
  by (simp add: lead_def)

lemma last_lead_trim:
  assumes "length (lead (trim p)) > 1"
  shows "last (lead (trim p)) \<noteq> slash"
proof (cases "trim p")
  case Nil
  with assms show ?thesis by (simp add: lead_def startsWith_def)
next
  case (Cons c cs)
  show ?thesis
  proof (cases "length p > 1")
    case True
    with Cons last_strip_trailing_slashes [of p] have "last (trim p) \<noteq> slash"
      by (simp add: trim_def)
    with Cons show ?thesis by (simp add: lead_def)
  next
    case False
    with Cons have "cs = []" by (cases p) (auto simp: trim_def)
    with Cons assms show ?thesis
      by (simp add: lead_def startsWith_def split: if_splits)
  qed
qed

lemma set_before_query:
  "question_mark \<notin> set (before_query p) \<and> hash_sign \<notin> set (before_query p)"
  by (auto simp: before_query_def dest: set_takeWhileD)

lemma before_query_id:
  "question_mark \<notin> set q \<Longrightarrow> hash_sign \<notin> set q \<Longrightarrow> before_query q = q"
  by (auto simp: before_query_def takeWhile_eq_all_conv)

lemma startsWith_normalizePath: "startsWith slash (normalizePath p)"
  by (simp add: normalizePath_steps startsWith_lead) (simp add: startsWith_def js_def)

lemma last_normalizePath:
  "length (normalizePath p) > 1 \<Longrightarrow> last (normalizePath p) \<noteq> slash"
  by (cases "p = []") (simp_all add: normalizePath_steps last_lead_trim js_def)

lemma set_normalizePath:
  "question_mark \<notin> set (normalizePath p) \<and> hash_sign \<notin> set (normalizePath p)"
proof (cases "p = []")
  case True
  then show ?thesis by (simp add: normalizePath_steps js_def)
next
  case False
  have "set (normalizePath p) \<subseteq> insert slash (set (before_query p))"
    unfolding normalizePath_steps using False
    by (simp only: if_False)
       (meson set_lead set_trim set_strip_suffix_ci set_drop_html subset_trans insert_mono)
  with set_before_query [of p] show ?thesis by auto
qed

lemma normalizePath_fixed:
  assumes "startsWith slash q" and "length q > 1 \<longrightarrow> last q \<noteq> slash"
    and "question_mark \<notin> set q" and "hash_sign \<notin> set q"
    and "\<not> ends_with_ci (js ''.html'') q" and "\<not> ends_with_ci (js ''/index'') q"
  shows "normalizePath q = q"
proof -
  from assms(1) have ne: "q \<noteq> []" by (auto simp: startsWith_def)
  have "drop_html q = q"
    using assms(5) by (simp add: drop_html_def strip_suffix_ci_id)
  with ne assms show ?thesis
    by (simp add: normalizePath_steps before_query_id trim_id strip_suffix_ci_id lead_id)
qed

lemma normalizePath_shrinks:
  assumes "startsWith slash q" and "length q > 1 \<longrightarrow> last q \<noteq> slash"
    and "question_mark \<notin> set q" and "hash_sign \<notin> set q"
    and "ends_with_ci (js ''.html'') q \<or> ends_with_ci (js ''/index'') q"
  shows "length (normalizePath q) < length q"
proof -
  from assms(1) have ne: "q \<noteq> []" by (auto simp: startsWith_def)
  have long: "q \<noteq> js ''/''"
    using assms(5) by (auto simp: ends_with_ci_def js_def)
  define p4 where "p4 = strip_suffix_ci (js ''.html'') q"
  have unfold: "normalizePath q = lead (trim (strip_suffix_ci (js ''/index'') p4))"
    using ne long assms(2,3,4)
    by (simp add: normalizePath_steps before_query_id trim_id drop_html_def p4_def)
  have "length (strip_suffix_ci (js ''/index'') p4) + 5 \<le> length q"
  proof (cases "ends_with_ci (js ''.html'') q")
    case True
    from length_strip_suffix_ci_ends [OF True] have "length p4 + 5 = length q"
      by (simp add: p4_def js_def)
    with length_strip_suffix_ci [of "js ''/index''" p4] show ?thesis by simp
  next
    case False
    then have "p4 = q" by (simp add: p4_def strip_suffix_ci_def)
    moreover from False assms(5) have "ends_with_ci (js ''/index'') q" by simp
    ultimately show ?thesis
      using length_strip_suffix_ci_ends [of "js ''/index''" q] by (simp add: js_def)
  qed
  with length_lead [of "trim (strip_suffix_ci (js ''/index'') p4)"]
    length_trim [of "strip_suffix_ci (js ''/index'') p4"]
  show ?thesis
    by (simp add: unfold)
qed

text \<open>
  Claim C3 states that \<open>normalizePath\<close> is idempotent on every path string. The code
  removes one suffix \<open>.html\<close> and one suffix \<open>/index\<close> in a single pass, so the path
  \<open>/a.html.html\<close> is normalized to \<open>/a.html\<close>, and that in turn to \<open>/a\<close>.
\<close>

theorem normalizePath_not_idempotent:
  "normalizePath (normalizePath (js ''/a.html.html'')) \<noteq> normalizePath (js ''/a.html.html'')"
  by code_simp

text \<open>
  Claim C3, amended: a second normalization changes nothing exactly when the normalized
  path ends neither in \<open>.html\<close> nor in \<open>/index\<close> (both compared without regard to
  case).
\<close>

theorem normalizePath_idempotent_iff:
  "normalizePath (normalizePath path) = normalizePath path \<longleftrightarrow>
     \<not> ends_with_ci (js ''.html'') (normalizePath path) \<and>
     \<not> ends_with_ci (js ''/index'') (normalizePath path)"
proof
  assume fixed: "normalizePath (normalizePath path) = normalizePath path"
  show "\<not> ends_with_ci (js ''.html'') (normalizePath path) \<and>
     \<not> ends_with_ci (js ''/index'') (normalizePath path)"
  proof (rule ccontr)
    assume "\<not> ?thesis"
    then have "ends_with_ci (js ''.html'') (normalizePath path) \<or>
      ends_with_ci (js ''/index'') (normalizePath path)" by blast
    from normalizePath_shrinks [OF startsWith_normalizePath _ _ _ this]
    have "length (normalizePath (normalizePath path)) < length (normalizePath path)"
      using last_normalizePath set_normalizePath by blast
    with fixed show False by simp
  qed
next
  assume "\<not> ends_with_ci (js ''.html'') (normalizePath path) \<and>
     \<not> ends_with_ci (js ''/index'') (normalizePath path)"
  then show "normalizePath (normalizePath path) = normalizePath path"
    using normalizePath_fixed [OF startsWith_normalizePath] last_normalizePath set_normalizePath
    by blast
qed

theorem normalizePath_idempotent_iff_witness:
  "normalizePath (normalizePath (js ''/docs/index.html'')) = normalizePath (js ''/docs/index.html'')
   \<and> \<not> ends_with_ci (js ''.html'') (normalizePath (js ''/docs/index.html''))
   \<and> \<not> ends_with_ci (js ''/index'') (normalizePath (js ''/docs/index.html''))"
proof -
  have "\<not> ends_with_ci (js ''.html'') (normalizePath (js ''/docs/index.html''))"
    and "\<not> ends_with_ci (js ''/index'') (normalizePath (js ''/docs/index.html''))"
    by code_simp+
  with normalizePath_idempotent_iff [of "js ''/docs/index.html''"] show ?thesis
    by blast
qed

section \<open>Properties of decodeURIComponent and parsePath\<close>

lemma hex_digit_slash [simp]: "hex_digit slash = None"
  by (simp add: hex_digit_def)

lemma ParseHexOctet_slash [simp]: "ParseHexOctet slash b = None" "ParseHexOctet a slash = None"
  by (simp_all add: ParseHexOctet_def split: option.splits)

lemma continuation_octets_append_slash:
  "continuation_octets j (s @ slash # t) =
     (case continuation_octets j s of
        None \<Rightarrow> None
      | Some (octets, rest) \<Rightarrow> Some (octets, rest @ slash # t))"
proof (induction j s rule: continuation_octets.induct)
  case (1 s)
  then show ?case by simp
next
  case (2 j p a b rest)
  then show ?case by (simp split: option.splits)
next
  case (3 j)
  then show ?case by (cases t; cases "tl t") auto
next
  case (4 j p)
  then show ?case by (cases t) auto
next
  case (5 j p a)
  then show ?case by simp
qed

lemma escape_sequence_append_slash:
  "escape_sequence (s @ slash # t) =
     (case escape_sequence s of
        None \<Rightarrow> None
      | Some (units, rest) \<Rightarrow> Some (units, rest @ slash # t))"
proof (cases s)
  case Nil
  then show ?thesis by (cases t) (simp_all add: escape_sequence_def)
next
  case (Cons a s')
  show ?thesis
  proof (cases s')
    case Nil
    with Cons show ?thesis by (simp add: escape_sequence_def)
  next
    case (Cons b rest)
    with \<open>s = a # s'\<close> show ?thesis
      by (simp add: escape_sequence_def continuation_octets_append_slash split: option.splits)
  qed
qed

lemma decodeURIComponent_append_slash:
  "decodeURIComponent (s @ slash # t) =
     (case decodeURIComponent s of
        Inl e \<Rightarrow> Inl e
      | Inr u \<Rightarrow> (case decodeURIComponent t of Inl e \<Rightarrow> Inl e | Inr v \<Rightarrow> Inr (u @ slash # v)))"
proof (induction s rule: decodeURIComponent.induct)
  case 1
  then show ?case by (simp split: sum.splits)
next
  case (2 c cs)
  show ?case
  proof (cases "c = percent")
    case False
    with 2(1) show ?thesis by (simp split: sum.splits)
  next
    case True
    show ?thesis
    proof (cases "escape_sequence cs")
      case None
      with True show ?thesis by (simp add: escape_sequence_append_slash)
    next
      case (Some r)
      obtain units rest where r: "r = (units, rest)" by (cases r)
      from True Some r have "decodeURIComponent (rest @ slash # t) =
         (case decodeURIComponent rest of
            Inl e \<Rightarrow> Inl e
          | Inr u \<Rightarrow> (case decodeURIComponent t of Inl e \<Rightarrow> Inl e | Inr v \<Rightarrow> Inr (u @ slash # v)))"
        by (intro 2(2)) simp_all
      with True Some r show ?thesis
        by (simp add: escape_sequence_append_slash split: sum.splits)
    qed
  qed
qed

lemma decodeURIComponent_join:
  "decodeURIComponent (join_js xs) = Inr v \<longleftrightarrow>
     (\<exists>vs. list_all2 (\<lambda>x w. decodeURIComponent x = Inr w) xs vs \<and> v = join_js vs)"
proof (induction xs arbitrary: v rule: join_js.induct)
  case 1
  then show ?case by auto
next
  case (2 x)
  then show ?case by (auto simp: list_all2_Cons1)
next
  case (3 x y ys)
  show ?case
  proof
    assume "decodeURIComponent (join_js (x # y # ys)) = Inr v"
    then obtain u w where u: "decodeURIComponent x = Inr u"
      and w: "decodeURIComponent (join_js (y # ys)) = Inr w" and v: "v = u @ slash # w"
      by (auto simp: decodeURIComponent_append_slash split: sum.splits)
    from w 3 obtain ws where ws: "list_all2 (\<lambda>x w. decodeURIComponent x = Inr w) (y # ys) ws"
      and "w = join_js ws" by blast
    moreover from ws obtain w1 ws' where "ws = w1 # ws'" by (auto simp: list_all2_Cons1)
    ultimately show "\<exists>vs. list_all2 (\<lambda>x w. decodeURIComponent x = Inr w) (x # y # ys) vs \<and> v = join_js vs"
      using u v by (intro exI [of _ "u # ws"]) auto
  next
    assume "\<exists>vs. list_all2 (\<lambda>x w. decodeURIComponent x = Inr w) (x # y # ys) vs \<and> v = join_js vs"
    then obtain u w1 ws where u: "decodeURIComponent x = Inr u"
      and ws: "list_all2 (\<lambda>x w. decodeURIComponent x = Inr w) (y # ys) (w1 # ws)"
      and v: "v = join_js (u # w1 # ws)"
      by (auto simp: list_all2_Cons1)
    from ws 3 have "decodeURIComponent (join_js (y # ys)) = Inr (join_js (w1 # ws))" by blast
    with u v show "decodeURIComponent (join_js (x # y # ys)) = Inr v"
      by (simp add: decodeURIComponent_append_slash)
  qed
qed

lemma map_of_assign_param_star:
  "map_of (assign_param acc (js ''*'') v) (js ''*'') = Some v"
  by (simp add: assign_param_def update_conv') (simp add: js_def)

lemma match_segments_wildcard:
  "match_segments ptnSeg urlSeg acc = Inr (Some ps) \<Longrightarrow> js ''*'' \<in> set ptnSeg \<Longrightarrow>
     decodeURIComponent (join_js (drop (wildcard_index ptnSeg) urlSeg)) = Inr (the (map_of ps (js ''*'')))
     \<and> js ''*'' \<in> dom (map_of ps)"
proof (induction ptnSeg arbitrary: urlSeg acc)
  case Nil
  then show ?case by simp
next
  case (Cons a ptnSeg)
  show ?case
  proof (cases "a = js ''*''")
    case True
    with Cons.prems show ?thesis
      by (auto simp: wildcard_index_def map_of_assign_param_star split: sum.splits)
  next
    case False
    with Cons.prems obtain b urlSeg' acc' where url: "urlSeg = b # urlSeg'"
      and rec: "match_segments ptnSeg urlSeg' acc' = Inr (Some ps)"
      by (cases urlSeg) (auto split: if_splits sum.splits)
    from False Cons.prems have "js ''*'' \<in> set ptnSeg" by auto
    from Cons.IH [OF rec this] False url show ?thesis
      by (simp add: wildcard_index_def)
  qed
qed

lemma wildcard_index_last:
  "ptnSeg \<noteq> [] \<Longrightarrow> js ''*'' \<notin> set (butlast ptnSeg) \<Longrightarrow> last ptnSeg = js ''*'' \<Longrightarrow>
   wildcard_index ptnSeg = length ptnSeg - 1"
proof -
  assume ne: "ptnSeg \<noteq> []" and "js ''*'' \<notin> set (butlast ptnSeg)"
    and "last ptnSeg = js ''*''"
  then have "takeWhile (\<lambda>a. a \<noteq> js ''*'') (butlast ptnSeg @ [last ptnSeg]) = butlast ptnSeg"
    by (subst takeWhile_append2) auto
  with ne show ?thesis by (simp add: wildcard_index_def)
qed

lemma match_segments_literals:
  "list_all literal_segment lits \<Longrightarrow>
   match_segments (lits @ [js ''*'']) lits acc = Inr (Some (assign_param acc (js ''*'') []))"
  by (induction lits arbitrary: acc) (simp_all add: literal_segment_def)

lemma segments_nonempty: "b \<in> set (segments s) \<Longrightarrow> b \<noteq> []"
  by (simp add: segments_def)

lemma segments_users_id:
  "segments (normalizePath (js ''/users/:id'')) = [js ''users'', js '':id'']"
  by code_simp

text \<open>
  A mapping that \<open>parsePath\<close> returns is never partial: it binds the key of every
  parameter segment that the loop has passed (the key \<open>__proto__\<close> apart, which cannot
  be bound).
\<close>

lemma dom_assign_param: "dom (map_of acc) \<subseteq> dom (map_of (assign_param acc key v))"
  by (auto simp: assign_param_def update_conv')

lemma match_segments_keeps:
  "match_segments ptnSeg urlSeg acc = Inr (Some ps) \<Longrightarrow> dom (map_of acc) \<subseteq> dom (map_of ps)"
proof (induction ptnSeg arbitrary: urlSeg acc)
  case Nil
  then show ?case by simp
next
  case (Cons a ptnSeg)
  show ?case
  proof (cases "a = js ''*''")
    case True
    with Cons.prems dom_assign_param [of acc "js ''*''"] show ?thesis
      by (auto split: sum.splits)
  next
    case False
    show ?thesis
    proof (cases urlSeg)
      case Nil
      with False Cons.prems show ?thesis by (simp split: if_splits)
    next
      case (Cons b urlSeg')
      show ?thesis
      proof (cases "startsWith colon a")
        case True
        with False Cons Cons.prems obtain v
          where "match_segments ptnSeg urlSeg' (assign_param acc (tl a) v) = Inr (Some ps)"
          by (auto split: if_splits sum.splits)
        from Cons.IH [OF this] dom_assign_param [of acc "tl a" v] show ?thesis by blast
      next
        case no_param: False
        with False Cons Cons.prems have "match_segments ptnSeg urlSeg' acc = Inr (Some ps)"
          by (auto split: if_splits)
        from Cons.IH [OF this] show ?thesis .
      qed
    qed
  qed
qed

lemma match_segments_binds_every_parameter:
  "match_segments ptnSeg urlSeg acc = Inr (Some ps) \<Longrightarrow>
   a \<in> set (take (wildcard_index ptnSeg) ptnSeg) \<Longrightarrow> startsWith colon a \<Longrightarrow>
   tl a \<noteq> js ''__proto__'' \<Longrightarrow> tl a \<in> dom (map_of ps)"
proof (induction ptnSeg arbitrary: urlSeg acc)
  case Nil
  then show ?case by simp
next
  case (Cons a' ptnSeg)
  show ?case
  proof (cases "a' = js ''*''")
    case True
    with Cons.prems(2) show ?thesis by (simp add: wildcard_index_def)
  next
    case False
    then have idx: "wildcard_index (a' # ptnSeg) = Suc (wildcard_index ptnSeg)"
      by (simp add: wildcard_index_def)
    show ?thesis
    proof (cases urlSeg)
      case Nil
      with False Cons.prems(1) show ?thesis by (simp split: if_splits)
    next
      case (Cons b urlSeg')
      show ?thesis
      proof (cases "startsWith colon a'")
        case True
        with False Cons Cons.prems(1) obtain v
          where rec: "match_segments ptnSeg urlSeg' (assign_param acc (tl a') v) = Inr (Some ps)"
          by (auto split: if_splits sum.splits)
        show ?thesis
        proof (cases "a = a'")
          case True
          with Cons.prems(4) have "tl a \<in> dom (map_of (assign_param acc (tl a') v))"
            by (simp add: assign_param_def update_conv')
          with match_segments_keeps [OF rec] show ?thesis by blast
        next
          case False
          with Cons.prems(2) idx have "a \<in> set (take (wildcard_index ptnSeg) ptnSeg)" by simp
          from Cons.IH [OF rec this Cons.prems(3,4)] show ?thesis .
        qed
      next
        case no_param: False
        with False Cons Cons.prems(1) have rec: "match_segments ptnSeg urlSeg' acc = Inr (Some ps)"
          by (auto split: if_splits)
        from no_param Cons.prems(3) have "a \<noteq> a'" by auto
        with Cons.prems(2) idx have "a \<in> set (take (wildcard_index ptnSeg) ptnSeg)" by simp
        from Cons.IH [OF rec this Cons.prems(3,4)] show ?thesis .
      qed
    qed
  qed
qed

lemma parsePath_binds_every_parameter:
  assumes "parsePath pattern url = Inr (Some ps)"
    and "a \<in> set (take (wildcard_index (segments (normalizePath pattern)))
                   (segments (normalizePath pattern)))"
    and "startsWith colon a" and "tl a \<noteq> js ''__proto__''"
  shows "tl a \<in> dom (map_of ps)"
proof -
  from assms(1)
  have "match_segments (segments (normalizePath pattern)) (segments (normalizePath url)) []
      = Inr (Some ps)"
    by (auto simp: parsePath_def Let_def split: if_splits)
  from match_segments_binds_every_parameter [OF this assms(2,3,4)] show ?thesis .
qed

text \<open>
  Claim C2 states that \<open>parsePath\<close> never throws. A URL segment that is bound to a
  parameter or to the wildcard is passed to \<open>decodeURIComponent\<close> outside any
  \<open>try\<close>, and a malformed escape makes that built-in throw URIError: the call
  \<^verbatim>\<open>parsePath("/users/:id", "/users/%")\<close> returns neither parameters nor \<open>null\<close>.
  The exception leaves \<open>navigate\<close> before anything is rendered.
\<close>

theorem parsePath_throws_URIError:
  "parsePath (js ''/users/:id'') (js ''/users/%'') = Inl URIError"
  by code_simp

text \<open>
  Claim C7: the three matches of the named-parameter rule, and the rule itself for the
  pattern \<open>/users/:id\<close> and any URL: with exactly the two segments \<open>users\<close> and \<open>b\<close>
  the result binds \<open>id\<close> to the percent-decoded \<open>b\<close>; with another number of
  segments (the parameter's segment absent or empty) the result is \<open>null\<close>.
\<close>

theorem named_parameter_matching:
  "parsePath (js ''/users/:id'') (js ''/users/42'') = Inr (Some [(js ''id'', js ''42'')])
   \<and> parsePath (js ''/users/:id'') (js ''/users/'') = Inr None
   \<and> parsePath (js ''/about'') (js ''/about/index.html'') = Inr (Some [])
   \<and> (segments (normalizePath url) = [js ''users'', b] \<longrightarrow>
        parsePath (js ''/users/:id'') url =
          (case decodeURIComponent b of Inl e \<Rightarrow> Inl e | Inr v \<Rightarrow> Inr (Some [(js ''id'', v)])))
   \<and> (length (segments (normalizePath url)) \<noteq> 2 \<longrightarrow> parsePath (js ''/users/:id'') url = Inr None)"
proof (intro conjI impI)
  show "parsePath (js ''/users/:id'') (js ''/users/42'') = Inr (Some [(js ''id'', js ''42'')])"
    by code_simp
  show "parsePath (js ''/users/:id'') (js ''/users/'') = Inr None"
    by code_simp
  show "parsePath (js ''/about'') (js ''/about/index.html'') = Inr (Some [])"
    by code_simp
next
  assume seg: "segments (normalizePath url) = [js ''users'', b]"
  then have "b \<in> set (segments (normalizePath url))" by simp
  then have "b \<noteq> []" by (rule segments_nonempty)
  moreover have "tl (js '':id'') = js ''id''" "js ''id'' \<noteq> js ''__proto__''"
    "js ''users'' \<noteq> js ''*''" "js '':id'' \<noteq> js ''*''"
    "startsWith colon (js '':id'')" "\<not> startsWith colon (js ''users'')"
    by (simp_all add: js_def startsWith_def)
  ultimately show "parsePath (js ''/users/:id'') url =
          (case decodeURIComponent b of Inl e \<Rightarrow> Inl e | Inr v \<Rightarrow> Inr (Some [(js ''id'', v)]))"
    using seg
    by (simp add: parsePath_def segments_users_id hasWildcard_def assign_param_def
        split: sum.splits)
next
  assume "length (segments (normalizePath url)) \<noteq> 2"
  moreover have "js '':id'' \<noteq> js ''*''" by (simp add: js_def)
  ultimately show "parsePath (js ''/users/:id'') url = Inr None"
    by (simp add: parsePath_def segments_users_id hasWildcard_def)
qed

theorem named_parameter_matching_witness:
  "segments (normalizePath (js ''/users/%34a'')) = [js ''users'', js ''%34a'']
   \<and> parsePath (js ''/users/:id'') (js ''/users/%34a'') = Inr (Some [(js ''id'', js ''4a'')])
   \<and> length (segments (normalizePath (js ''/users''))) \<noteq> 2
   \<and> parsePath (js ''/users/:id'') (js ''/users'') = Inr None"
proof -
  have seg: "segments (normalizePath (js ''/users/%34a'')) = [js ''users'', js ''%34a'']"
    by code_simp
  have dec: "decodeURIComponent (js ''%34a'') = Inr (js ''4a'')"
    by code_simp
  have len: "length (segments (normalizePath (js ''/users''))) \<noteq> 2"
    by code_simp
  from named_parameter_matching [of "js ''/users/%34a''" "js ''%34a''"] seg dec
  have "parsePath (js ''/users/:id'') (js ''/users/%34a'') = Inr (Some [(js ''id'', js ''4a'')])"
    by simp
  moreover from named_parameter_matching [of "js ''/users''"] len
  have "parsePath (js ''/users/:id'') (js ''/users'') = Inr None"
    by blast
  ultimately show ?thesis using seg len by blast
qed

text \<open>
  Claim C8: for a pattern whose last segment is \<open>*\<close>, a match needs at least \<open>n - 1\<close>
  URL segments, and on success the URL segments from the wildcard position on, each
  percent-decoded and rejoined with \<open>/\<close>, are stored under the key \<open>*\<close>. The wildcard
  position is the index of the first segment \<open>*\<close>, which is \<open>n - 1\<close> when the
  pattern has no other wildcard.
\<close>

theorem wildcard_matching:
  "(hasWildcard (segments (normalizePath pattern)) \<and> parsePath pattern url = Inr (Some ps) \<longrightarrow>
      length (segments (normalizePath pattern)) - 1 \<le> length (segments (normalizePath url))
      \<and> (\<exists>vs. list_all2 (\<lambda>s v. decodeURIComponent s = Inr v)
                 (drop (wildcard_index (segments (normalizePath pattern)))
                    (segments (normalizePath url))) vs
               \<and> map_of ps (js ''*'') = Some (join_js vs)))
   \<and> (hasWildcard ptnSeg \<and> js ''*'' \<notin> set (butlast ptnSeg) \<longrightarrow>
        wildcard_index ptnSeg = length ptnSeg - 1)
   \<and> parsePath (js ''/files/*'') (js ''/files/a/b%2Fc'') = Inr (Some [(js ''*'', js ''a/b/c'')])"
proof (intro conjI impI)
  assume asm: "hasWildcard (segments (normalizePath pattern)) \<and> parsePath pattern url = Inr (Some ps)"
  define ptnSeg where "ptnSeg = segments (normalizePath pattern)"
  define urlSeg where "urlSeg = segments (normalizePath url)"
  from asm have wild: "hasWildcard ptnSeg" and res: "parsePath pattern url = Inr (Some ps)"
    by (simp_all add: ptnSeg_def)
  from wild res show "length (segments (normalizePath pattern)) - 1 \<le> length (segments (normalizePath url))"
    by (auto simp: parsePath_def Let_def ptnSeg_def split: if_splits)
  from wild res have m: "match_segments ptnSeg urlSeg [] = Inr (Some ps)"
    by (auto simp: parsePath_def Let_def ptnSeg_def urlSeg_def split: if_splits)
  from wild have "js ''*'' \<in> set ptnSeg"
    by (auto simp: hasWildcard_def dest: last_in_set)
  from match_segments_wildcard [OF m this]
  obtain v where v: "map_of ps (js ''*'') = Some v"
    and "decodeURIComponent (join_js (drop (wildcard_index ptnSeg) urlSeg)) = Inr v"
    by auto
  then obtain vs where "list_all2 (\<lambda>s v. decodeURIComponent s = Inr v)
        (drop (wildcard_index ptnSeg) urlSeg) vs" and "v = join_js vs"
    by (auto simp: decodeURIComponent_join)
  with v show "\<exists>vs. list_all2 (\<lambda>s v. decodeURIComponent s = Inr v)
                 (drop (wildcard_index (segments (normalizePath pattern)))
                    (segments (normalizePath url))) vs
               \<and> map_of ps (js ''*'') = Some (join_js vs)"
    unfolding ptnSeg_def urlSeg_def by blast
next
  assume "hasWildcard ptnSeg \<and> js ''*'' \<notin> set (butlast ptnSeg)"
  then show "wildcard_index ptnSeg = length ptnSeg - 1"
    by (simp add: hasWildcard_def wildcard_index_last)
next
  show "parsePath (js ''/files/*'') (js ''/files/a/b%2Fc'') = Inr (Some [(js ''*'', js ''a/b/c'')])"
    by code_simp
qed

theorem wildcard_matching_witness:
  "hasWildcard (segments (normalizePath (js ''/files/*'')))
   \<and> parsePath (js ''/files/*'') (js ''/files/a/b%2Fc'') = Inr (Some [(js ''*'', js ''a/b/c'')])
   \<and> length (segments (normalizePath (js ''/files/*''))) - 1
        \<le> length (segments (normalizePath (js ''/files/a/b%2Fc'')))
   \<and> (\<exists>vs. list_all2 (\<lambda>s v. decodeURIComponent s = Inr v)
              (drop (wildcard_index (segments (normalizePath (js ''/files/*''))))
                 (segments (normalizePath (js ''/files/a/b%2Fc'')))) vs
            \<and> map_of [(js ''*'', js ''a/b/c'')] (js ''*'') = Some (join_js vs))
   \<and> js ''*'' \<notin> set (butlast [js ''files'', js ''*''])
   \<and> wildcard_index [js ''files'', js ''*''] = length [js ''files'', js ''*''] - 1"
proof -
  have wild: "hasWildcard (segments (normalizePath (js ''/files/*'')))"
    by code_simp
  have res: "parsePath (js ''/files/*'') (js ''/files/a/b%2Fc'')
      = Inr (Some [(js ''*'', js ''a/b/c'')])"
    by code_simp
  have wild': "hasWildcard [js ''files'', js ''*'']"
    and single: "js ''*'' \<notin> set (butlast [js ''files'', js ''*''])"
    by code_simp+
  from wildcard_matching [of "js ''/files/*''" "js ''/files/a/b%2Fc''"
      "[(js ''*'', js ''a/b/c'')]" "[js ''files'', js ''*'']"] wild res wild' single
  show ?thesis by blast
qed

text \<open>
  Claim C10: a wildcard pattern also matches a URL with one segment less than the
  pattern, and the wildcard then captures the empty string: the example of the claim;
  the capture of any such match; and the match itself whenever the segments before the
  wildcard are literal and equal to the URL's segments.
\<close>

theorem wildcard_matches_parent:
  "parsePath (js ''/files/*'') (js ''/files'') = Inr (Some [(js ''*'', [])])
   \<and> (hasWildcard (segments (normalizePath pattern))
        \<and> js ''*'' \<notin> set (butlast (segments (normalizePath pattern)))
        \<and> length (segments (normalizePath url)) = length (segments (normalizePath pattern)) - 1
        \<and> parsePath pattern url = Inr (Some ps)
      \<longrightarrow> map_of ps (js ''*'') = Some [])
   \<and> (segments (normalizePath pattern) = segments (normalizePath url) @ [js ''*'']
        \<and> list_all literal_segment (segments (normalizePath url))
      \<longrightarrow> parsePath pattern url = Inr (Some [(js ''*'', [])]))"
proof (intro conjI impI)
  show "parsePath (js ''/files/*'') (js ''/files'') = Inr (Some [(js ''*'', [])])"
    by code_simp
next
  define ptnSeg where "ptnSeg = segments (normalizePath pattern)"
  define urlSeg where "urlSeg = segments (normalizePath url)"
  assume "hasWildcard (segments (normalizePath pattern))
        \<and> js ''*'' \<notin> set (butlast (segments (normalizePath pattern)))
        \<and> length (segments (normalizePath url)) = length (segments (normalizePath pattern)) - 1
        \<and> parsePath pattern url = Inr (Some ps)"
  then have wild: "hasWildcard ptnSeg" and single: "js ''*'' \<notin> set (butlast ptnSeg)"
    and len: "length urlSeg = length ptnSeg - 1"
    and res: "parsePath pattern url = Inr (Some ps)"
    by (simp_all add: ptnSeg_def urlSeg_def)
  from wild res have m: "match_segments ptnSeg urlSeg [] = Inr (Some ps)"
    by (auto simp: parsePath_def Let_def ptnSeg_def urlSeg_def split: if_splits)
  from wild have star: "js ''*'' \<in> set ptnSeg"
    by (auto simp: hasWildcard_def dest: last_in_set)
  from wild single have "wildcard_index ptnSeg = length ptnSeg - 1"
    by (simp add: hasWildcard_def wildcard_index_last)
  with match_segments_wildcard [OF m star] len show "map_of ps (js ''*'') = Some []"
    by auto
next
  assume asm: "segments (normalizePath pattern) = segments (normalizePath url) @ [js ''*'']
        \<and> list_all literal_segment (segments (normalizePath url))"
  then show "parsePath pattern url = Inr (Some [(js ''*'', [])])"
    by (simp add: parsePath_def Let_def hasWildcard_def match_segments_literals assign_param_def)
       (simp add: js_def)
qed

theorem wildcard_matches_parent_witness:
  "hasWildcard (segments (normalizePath (js ''/docs/api/*'')))
   \<and> js ''*'' \<notin> set (butlast (segments (normalizePath (js ''/docs/api/*''))))
   \<and> length (segments (normalizePath (js ''/docs/api/'')))
       = length (segments (normalizePath (js ''/docs/api/*''))) - 1
   \<and> segments (normalizePath (js ''/docs/api/*''))
       = segments (normalizePath (js ''/docs/api/'')) @ [js ''*'']
   \<and> list_all literal_segment (segments (normalizePath (js ''/docs/api/'')))
   \<and> parsePath (js ''/docs/api/*'') (js ''/docs/api/'') = Inr (Some [(js ''*'', [])])
   \<and> map_of [(js ''*'', [])] (js ''*'') = Some ([] :: jsstring)"
proof -
  have 1: "hasWildcard (segments (normalizePath (js ''/docs/api/*'')))"
    and 2: "js ''*'' \<notin> set (butlast (segments (normalizePath (js ''/docs/api/*''))))"
    and 3: "length (segments (normalizePath (js ''/docs/api/'')))
       = length (segments (normalizePath (js ''/docs/api/*''))) - 1"
    and 4: "segments (normalizePath (js ''/docs/api/*''))
       = segments (normalizePath (js ''/docs/api/'')) @ [js ''*'']"
    and 5: "list_all literal_segment (segments (normalizePath (js ''/docs/api/'')))"
    by code_simp+
  from wildcard_matches_parent [of "js ''/docs/api/*''" "js ''/docs/api/''" "[(js ''*'', [])]"] 4 5
  have 6: "parsePath (js ''/docs/api/*'') (js ''/docs/api/'') = Inr (Some [(js ''*'', [])])"
    by blast
  with wildcard_matches_parent [of "js ''/docs/api/*''" "js ''/docs/api/''" "[(js ''*'', [])]"] 1 2 3
  have "map_of [(js ''*'', [])] (js ''*'') = Some ([] :: jsstring)"
    by blast
  with 1 2 3 4 5 6 show ?thesis by blast
qed

section \<open>Properties of the router\<close>

lemma listeners_cong: "events s' = events s \<Longrightarrow> listeners s' = listeners s"
  by (rule ext) (simp add: listeners_def)

lemma listeners_trace: "listeners (s\<lparr>trace := t\<rparr>) = listeners s"
  by (rule listeners_cong) simp

lemma call_listeners_return:
  "listeners_return env cbs payload \<Longrightarrow>
   call_listeners (listener env) cbs payload = (map (\<lambda>cb. Listener cb payload) cbs, None)"
  by (induction cbs) (simp_all add: listeners_return_def)

lemma call_listeners_throw:
  "\<not> listeners_return env cbs payload \<Longrightarrow> snd (call_listeners (listener env) cbs payload) \<noteq> None"
  by (induction cbs) (auto simp: listeners_return_def split: option.splits prod.splits)

lemma handler_calls_append: "handler_calls (t @ u) = handler_calls t @ handler_calls u"
  by (simp add: handler_calls_def)

lemma handler_calls_Handler:
  "handler_calls (Handler pattern ps # t) = (pattern, ps) # handler_calls t"
  by (simp add: handler_calls_def)

lemma handler_calls_single:
  "handler_calls [] = []"
  "handler_calls (Fetch url headers # t) = handler_calls t"
  "handler_calls (Listener cb payload # t) = handler_calls t"
  "handler_calls (ConsoleDebug url err # t) = handler_calls t"
  "handler_calls (ExecuteScripts # t) = handler_calls t"
  "handler_calls (PushState title url # t) = handler_calls t"
  "handler_calls (ReplaceState title url # t) = handler_calls t"
  by (simp_all add: handler_calls_def)

lemma handler_calls_listeners: "handler_calls (map (\<lambda>cb. Listener cb payload) cbs) = []"
  by (induction cbs) (simp_all add: handler_calls_single)

lemma fetches_append: "fetches (t @ u) = fetches t @ fetches u"
  by (simp add: fetches_def)

lemma fetches_single:
  "fetches [] = []"
  "fetches (Fetch url headers # t) = url # fetches t"
  "fetches (Listener cb payload # t) = fetches t"
  "fetches (Handler pattern ps # t) = fetches t"
  "fetches (ConsoleDebug url err # t) = fetches t"
  "fetches (ExecuteScripts # t) = fetches t"
  "fetches (PushState title url # t) = fetches t"
  "fetches (ReplaceState title url # t) = fetches t"
  by (simp_all add: fetches_def)

lemma call_listeners_calls:
  "fetches (fst (call_listeners run cbs payload)) = []
   \<and> handler_calls (fst (call_listeners run cbs payload)) = []"
  by (induction cbs)
     (auto simp: fetches_single handler_calls_single split: option.splits prod.splits)

lemma emit_keeps:
  "cache (snd (emit env s event payload)) = cache s"
  "routes (snd (emit env s event payload)) = routes s"
  "events (snd (emit env s event payload)) = events s"
  "contentSelector (snd (emit env s event payload)) = contentSelector s"
  by (simp_all add: emit_def split: prod.splits)

lemma emit_calls:
  "fetches (trace (snd (emit env s event payload))) = fetches (trace s)"
  "handler_calls (trace (snd (emit env s event payload))) = handler_calls (trace s)"
proof -
  obtain calls outcome where c: "call_listeners (listener env) (listeners s event) payload = (calls, outcome)"
    by (cases "call_listeners (listener env) (listeners s event) payload")
  with call_listeners_calls [of "listener env" "listeners s event" payload]
  have "fetches calls = []" "handler_calls calls = []" by simp_all
  with c show "fetches (trace (snd (emit env s event payload))) = fetches (trace s)"
    and "handler_calls (trace (snd (emit env s event payload))) = handler_calls (trace s)"
    by (simp_all add: emit_def fetches_append handler_calls_append)
qed

lemma listeners_emit: "listeners (snd (emit env s event payload)) = listeners s"
  by (rule listeners_cong) (rule emit_keeps)

lemma emit_return:
  "event \<notin> set Object_prototype_names \<Longrightarrow> listeners_return env (listeners s event) payload \<Longrightarrow>
   emit env s event payload
     = (Inr (), s\<lparr>trace := trace s @ map (\<lambda>cb. Listener cb payload) (listeners s event)\<rparr>)"
  by (simp add: emit_def call_listeners_return)

lemma emit_throw:
  "\<not> listeners_return env (listeners s event) payload \<Longrightarrow>
   \<exists>err. fst (emit env s event payload) = Inl err"
  using call_listeners_throw [of env "listeners s event" payload]
  by (auto simp: emit_def split: prod.splits option.splits)

lemma route_event_name: "js ''route:'' @ pattern \<notin> set Object_prototype_names"
  by (simp add: Object_prototype_names_def js_def)

lemma event_names:
  "js ''prefetch'' \<notin> set Object_prototype_names"
  "js ''prefetch:error'' \<notin> set Object_prototype_names"
  "js ''navigate'' \<notin> set Object_prototype_names"
  by (simp_all add: Object_prototype_names_def js_def)

lemma run_routes_no_throw:
  "no_throw env (listeners s) entries url matchUrl content \<Longrightarrow>
   run_routes env entries url matchUrl content s =
     (Inr (foldl override content (map result_of (matching_routes entries matchUrl))),
      s\<lparr>trace := trace s @ route_events (listeners s) url content (matching_routes entries matchUrl)\<rparr>)"
proof (induction entries arbitrary: content s)
  case Nil
  then show ?case by (simp add: matching_routes_def)
next
  case (Cons entry entries)
  obtain pattern callback where entry: "entry = (pattern, callback)" by (cases entry)
  show ?case
  proof (cases "parsePath pattern matchUrl")
    case (Inl err)
    with Cons.prems show ?thesis unfolding entry by simp
  next
    case (Inr found)
    show ?thesis
    proof (cases found)
      case None
      with Inr Cons.prems have "no_throw env (listeners s) entries url matchUrl content"
        unfolding entry by simp
      from Cons.IH [OF this] Inr None show ?thesis
        unfolding entry by (simp add: matching_routes_def)
    next
      case (Some ps)
      define payload where "payload = VObject (spread (spread [(js ''url'', VStr url)] content)
                    [(js ''params'', params_object ps)])"
      from Inr Some Cons.prems obtain result where result: "callback ps = Inr result"
        and quiet: "listeners_return env (listeners s (js ''route:'' @ pattern)) payload"
        and rest: "no_throw env (listeners s) entries url matchUrl (override content result)"
        unfolding entry payload_def by (auto split: sum.splits)
      define s1 where "s1 = s\<lparr>trace := trace s @ [Handler pattern ps]\<rparr>"
      define s2 where "s2 = s1\<lparr>trace := trace s1 @ map (\<lambda>cb. Listener cb payload)
          (listeners s1 (js ''route:'' @ pattern))\<rparr>"
      have l1: "listeners s1 = listeners s" and l2: "listeners s2 = listeners s"
        by (simp_all add: s1_def s2_def listeners_trace)
      from quiet have e: "emit env s1 (js ''route:'' @ pattern) payload = (Inr (), s2)"
        unfolding s2_def by (intro emit_return) (simp_all add: route_event_name l1)
      from rest have "no_throw env (listeners s2) entries url matchUrl (override content result)"
        by (simp add: l2)
      note ih = Cons.IH [OF this]
      have ms: "matching_routes ((pattern, callback) # entries) matchUrl
          = (pattern, ps, Inr result) # matching_routes entries matchUrl"
        using Inr Some result by (simp add: matching_routes_def)
      have ro: "result_of (pattern, ps, Inr result) = result"
        by (simp add: result_of_def)
      have step: "run_routes env ((pattern, callback) # entries) url matchUrl content s
          = run_routes env entries url matchUrl (override content result) s2"
        using Inr Some result e
        by (simp add: Let_def s1_def [symmetric] payload_def [symmetric])
      have content_eq: "foldl override content
            (map result_of (matching_routes ((pattern, callback) # entries) matchUrl))
          = foldl override (override content result)
              (map result_of (matching_routes entries matchUrl))"
        by (simp add: ms ro)
      have state_eq: "s\<lparr>trace := trace s @ route_events (listeners s) url content
              (matching_routes ((pattern, callback) # entries) matchUrl)\<rparr>
          = s2\<lparr>trace := trace s2 @ route_events (listeners s2) url (override content result)
                (matching_routes entries matchUrl)\<rparr>"
        by (simp add: ms ro l2) (simp add: s2_def s1_def listeners_trace payload_def)
      show ?thesis
        unfolding entry by (simp only: step ih content_eq state_eq)
    qed
  qed
qed

lemma handler_calls_route_events:
  "handler_calls (route_events subscribed url content ms) = map (\<lambda>m. (fst m, fst (snd m))) ms"
  by (induction ms arbitrary: content)
     (simp_all add: handler_calls_Handler handler_calls_append handler_calls_listeners
        handler_calls_single)

lemma run_routes_preserves:
  "cache (snd (run_routes env entries url matchUrl content s)) = cache s
   \<and> fetches (trace (snd (run_routes env entries url matchUrl content s))) = fetches (trace s)"
proof (induction entries arbitrary: content s)
  case Nil
  then show ?case by simp
next
  case (Cons entry entries)
  obtain pattern callback where entry: "entry = (pattern, callback)" by (cases entry)
  show ?case
  proof (cases "parsePath pattern matchUrl")
    case (Inl err)
    then show ?thesis unfolding entry by simp
  next
    case (Inr found)
    show ?thesis
    proof (cases found)
      case None
      with Inr Cons.IH show ?thesis unfolding entry by simp
    next
      case (Some ps)
      show ?thesis
      proof (cases "callback ps")
        case (Inl err)
        with \<open>parsePath pattern matchUrl = Inr found\<close> Some show ?thesis
          unfolding entry by (simp add: fetches_append fetches_single)
      next
        case result: (Inr result)
        define s1 where "s1 = s\<lparr>trace := trace s @ [Handler pattern ps]\<rparr>"
        define payload where "payload = VObject (spread (spread [(js ''url'', VStr url)] content)
                    [(js ''params'', params_object ps)])"
        obtain r s2 where e: "emit env s1 (js ''route:'' @ pattern) payload = (r, s2)"
          by (cases "emit env s1 (js ''route:'' @ pattern) payload")
        with emit_keeps(1) [of env s1 "js ''route:'' @ pattern" payload]
          emit_calls(1) [of env s1 "js ''route:'' @ pattern" payload]
        have s2: "cache s2 = cache s" "fetches (trace s2) = fetches (trace s)"
          by (simp_all add: s1_def fetches_append fetches_single)
        show ?thesis
        proof (cases r)
          case (Inl err)
          with Inr Some result e s2 show ?thesis
            unfolding entry
            by (simp add: Let_def s1_def [symmetric] payload_def [symmetric])
        next
          case ok: (Inr u)
          with Inr Some result e s2 Cons.IH [of "override content result" s2] show ?thesis
            unfolding entry
            by (simp add: Let_def s1_def [symmetric] payload_def [symmetric])
        qed
      qed
    qed
  qed
qed

lemma render_keeps:
  "cache (snd (render env s payload)) = cache s"
  "fetches (trace (snd (render env s payload))) = fetches (trace s)"
  "handler_calls (trace (snd (render env s payload))) = handler_calls (trace s)"
  by (simp_all add: render_def Let_def emit_keeps emit_calls fetches_append fetches_single
      handler_calls_append handler_calls_single split: option.splits jsval.splits)

lemma render_return:
  "listeners_return env (listeners s (js ''navigate'')) (VObject payload) \<Longrightarrow>
   fst (render env s payload) = Inr ()"
  by (simp add: render_def Let_def emit_return event_names split: option.splits jsval.splits)

lemma update_history_keeps:
  "cache (update_history s finalData rawUrl replace) = cache s"
  "fetches (trace (update_history s finalData rawUrl replace)) = fetches (trace s)"
  "handler_calls (trace (update_history s finalData rawUrl replace)) = handler_calls (trace s)"
  by (simp_all add: update_history_def Let_def fetches_append fetches_single
      handler_calls_append handler_calls_single)

lemma fetchPage_cached:
  "map_of (cache s) url = Some entry \<Longrightarrow> fetchPage env s url isPrefetch = (Inr entry, s)"
  by (simp add: fetchPage_def)

lemma fetchPage_rejected:
  "map_of (cache s) url = None \<Longrightarrow>
   response_text (fetch env url (request_headers False)) = Inl err \<Longrightarrow>
   fetchPage env s url False =
     (Inr (fallback err),
      s\<lparr>trace := trace s @ [Fetch url (request_headers False)],
        cache := AList.update url (fallback err) (cache s)\<rparr>)"
  by (simp add: fetchPage_def fetchPage_try_def)

lemma fetchPage_try_navigation:
  "events (snd (fetchPage_try env s url False)) = events s
   \<and> routes (snd (fetchPage_try env s url False)) = routes s
   \<and> handler_calls (trace (snd (fetchPage_try env s url False))) = handler_calls (trace s)"
  by (simp add: fetchPage_try_def Let_def split: sum.splits)

lemma fetchPage_navigation:
  "\<exists>data s1. fetchPage env s url False = (Inr data, s1)"
  by (simp add: fetchPage_def split: option.splits prod.splits sum.splits)

lemma fetchPage_keeps:
  "routes (snd (fetchPage env s url False)) = routes s"
  "listeners (snd (fetchPage env s url False)) = listeners s"
  "handler_calls (trace (snd (fetchPage env s url False))) = handler_calls (trace s)"
proof -
  define s0 where "s0 = s\<lparr>trace := trace s @ [Fetch url (request_headers False)]\<rparr>"
  obtain r s1 where t: "fetchPage_try env s0 url False = (r, s1)"
    by (cases "fetchPage_try env s0 url False")
  with fetchPage_try_navigation [of env s0 url]
  have s1: "events s1 = events s" "routes s1 = routes s"
    "handler_calls (trace s1) = handler_calls (trace s)"
    by (simp_all add: s0_def handler_calls_append handler_calls_single)
  have all: "events (snd (fetchPage env s url False)) = events s
      \<and> routes (snd (fetchPage env s url False)) = routes s
      \<and> handler_calls (trace (snd (fetchPage env s url False))) = handler_calls (trace s)"
  proof (cases "map_of (cache s) url")
    case None
    with t s1 show ?thesis
      by (cases r) (simp_all add: fetchPage_def s0_def [symmetric])
  next
    case (Some entry)
    then show ?thesis by (simp add: fetchPage_def)
  qed
  then show "routes (snd (fetchPage env s url False)) = routes s"
    and "handler_calls (trace (snd (fetchPage env s url False))) = handler_calls (trace s)"
    by simp_all
  from all show "listeners (snd (fetchPage env s url False)) = listeners s"
    by (intro listeners_cong) simp
qed

lemma navigate_from_content:
  assumes "fetchPage env s rawUrl False = (Inr data, s1)"
  shows "navigate env s rawUrl replace =
     (case run_routes env (routes s) rawUrl (normalizeUrl s rawUrl) (spread data []) s1 of
        (Inl err, s2) \<Rightarrow> (Inl err, s2)
      | (Inr finalData, s2) \<Rightarrow>
          (case render env s2 (spread [(js ''url'', VStr rawUrl)] finalData) of
             (Inl err, s3) \<Rightarrow> (Inl err, s3)
           | (Inr u, s3) \<Rightarrow> (Inr (), update_history s3 finalData rawUrl replace)))"
proof -
  from fetchPage_keeps(1) [of env s rawUrl] assms have "routes s1 = routes s" by simp
  with assms show ?thesis unfolding navigate_def Let_def by simp
qed

lemma navigate_after_fetch:
  assumes "fetchPage env s rawUrl False = (Inr data, s1)"
  shows "cache (snd (navigate env s rawUrl replace)) = cache s1"
    and "fetches (trace (snd (navigate env s rawUrl replace))) = fetches (trace s1)"
    and "handler_calls (trace (snd (navigate env s rawUrl replace)))
          = handler_calls (trace (snd (run_routes env (routes s) rawUrl (normalizeUrl s rawUrl)
              (spread data []) s1)))"
proof -
  obtain r s2 where rr: "run_routes env (routes s) rawUrl (normalizeUrl s rawUrl) (spread data []) s1 = (r, s2)"
    by (cases "run_routes env (routes s) rawUrl (normalizeUrl s rawUrl) (spread data []) s1")
  with run_routes_preserves [of env "routes s" rawUrl "normalizeUrl s rawUrl" "spread data []" s1]
  have s2: "cache s2 = cache s1" "fetches (trace s2) = fetches (trace s1)" by simp_all
  have "cache (snd (navigate env s rawUrl replace)) = cache s1
      \<and> fetches (trace (snd (navigate env s rawUrl replace))) = fetches (trace s1)
      \<and> handler_calls (trace (snd (navigate env s rawUrl replace))) = handler_calls (trace s2)"
  proof (cases r)
    case (Inl err)
    with rr s2 show ?thesis by (simp add: navigate_from_content [OF assms])
  next
    case (Inr finalData)
    obtain r3 s3 where rd: "render env s2 (spread [(js ''url'', VStr rawUrl)] finalData) = (r3, s3)"
      by (cases "render env s2 (spread [(js ''url'', VStr rawUrl)] finalData)")
    with render_keeps [of env s2 "spread [(js ''url'', VStr rawUrl)] finalData"] s2
    have s3: "cache s3 = cache s1" "fetches (trace s3) = fetches (trace s1)"
      "handler_calls (trace s3) = handler_calls (trace s2)"
      by simp_all
    with rr rd Inr show ?thesis
      by (cases r3) (simp_all add: navigate_from_content [OF assms] update_history_keeps)
  qed
  with rr show "cache (snd (navigate env s rawUrl replace)) = cache s1"
    and "fetches (trace (snd (navigate env s rawUrl replace))) = fetches (trace s1)"
    and "handler_calls (trace (snd (navigate env s rawUrl replace)))
          = handler_calls (trace (snd (run_routes env (routes s) rawUrl (normalizeUrl s rawUrl)
              (spread data []) s1)))"
    by simp_all
qed

lemma navigate_quiet:
  assumes "fetchPage env s rawUrl False = (Inr data, s1)"
    and "navigation_quiet env s rawUrl data"
  shows "navigate env s rawUrl replace =
     (let ms = matching_routes (routes s) (normalizeUrl s rawUrl);
          finalData = foldl override (spread data []) (map result_of ms);
          s2 = s1\<lparr>trace := trace s1 @ route_events (listeners s) rawUrl (spread data []) ms\<rparr>
      in (Inr (),
          update_history (snd (render env s2 (spread [(js ''url'', VStr rawUrl)] finalData)))
            finalData rawUrl replace))"
proof -
  define ms where "ms = matching_routes (routes s) (normalizeUrl s rawUrl)"
  define finalData where "finalData = foldl override (spread data []) (map result_of ms)"
  define s2 where "s2 = s1\<lparr>trace := trace s1 @ route_events (listeners s) rawUrl (spread data []) ms\<rparr>"
  from fetchPage_keeps(2) [of env s rawUrl] assms(1) have l1: "listeners s1 = listeners s" by simp
  then have l2: "listeners s2 = listeners s" by (simp add: s2_def listeners_trace)
  from assms(2) have loop: "no_throw env (listeners s1) (routes s) rawUrl (normalizeUrl s rawUrl) (spread data [])"
    and last: "listeners_return env (listeners s2 (js ''navigate''))
         (VObject (spread [(js ''url'', VStr rawUrl)] finalData))"
    by (simp_all add: navigation_quiet_def final_content_def l1 l2 finalData_def ms_def)
  from run_routes_no_throw [OF loop]
  have rr: "run_routes env (routes s) rawUrl (normalizeUrl s rawUrl) (spread data []) s1
      = (Inr finalData, s2)"
    by (simp add: finalData_def ms_def s2_def l1)
  obtain r3 s3 where rd: "render env s2 (spread [(js ''url'', VStr rawUrl)] finalData) = (r3, s3)"
    by (cases "render env s2 (spread [(js ''url'', VStr rawUrl)] finalData)")
  with render_return [OF last] have "r3 = Inr ()" by simp
  with rr rd have "navigate env s rawUrl replace =
      (Inr (), update_history (snd (render env s2 (spread [(js ''url'', VStr rawUrl)] finalData)))
            finalData rawUrl replace)"
    by (simp add: navigate_from_content [OF assms(1)])
  then show ?thesis
    by (simp add: Let_def ms_def finalData_def s2_def)
qed

lemma navigate_quiet_calls:
  assumes "fetchPage env s rawUrl False = (Inr data, s1)"
    and "no_throw env (listeners s) (routes s) rawUrl (normalizeUrl s rawUrl) (spread data [])"
  shows "handler_calls (trace (snd (navigate env s rawUrl replace)))
      = handler_calls (trace s)
        @ map (\<lambda>m. (fst m, fst (snd m))) (matching_routes (routes s) (normalizeUrl s rawUrl))"
proof -
  from fetchPage_keeps(2,3) [of env s rawUrl] assms(1)
  have l1: "listeners s1 = listeners s" and h1: "handler_calls (trace s1) = handler_calls (trace s)"
    by simp_all
  from assms(2) have "no_throw env (listeners s1) (routes s) rawUrl (normalizeUrl s rawUrl) (spread data [])"
    by (simp add: l1)
  from run_routes_no_throw [OF this] navigate_after_fetch(3) [OF assms(1), of replace] h1
  show ?thesis
    by (simp add: handler_calls_append handler_calls_route_events)
qed


text \<open>
  The registrations that lead to the routers of the example runs, and a registration
  under a name that \<open>Object.prototype\<close> holds.
\<close>

lemma on_examples:
  "on default_router (js ''prefetch:error'') 3 = Inr watched_router"
  "on posts_routes (js ''route:/posts/*'') 1 = Inr posts_router"
  "on posts_routes (js ''route:/posts/:id'') 13 = Inr noisy_router"
  "on default_router (js ''constructor'') 1
     = Inl (Thrown (js ''TypeError: this.events[event].push is not a function''))"
proof -
  have free: "js ''prefetch:error'' \<notin> set Object_prototype_names"
    "js ''route:/posts/*'' \<notin> set Object_prototype_names"
    "js ''route:/posts/:id'' \<notin> set Object_prototype_names"
    and bound: "js ''constructor'' \<in> set Object_prototype_names"
    by (simp_all add: Object_prototype_names_def js_def)
  have none: "events default_router = []" "events posts_routes = []"
    by (simp_all add: posts_routes_def route_def default_router_def MiniRouter_def)
  from free none show "on default_router (js ''prefetch:error'') 3 = Inr watched_router"
    and "on posts_routes (js ''route:/posts/*'') 1 = Inr posts_router"
    and "on posts_routes (js ''route:/posts/:id'') 13 = Inr noisy_router"
    by (simp_all add: on_def listeners_def watched_router_def posts_router_def noisy_router_def)
  from bound show "on default_router (js ''constructor'') 1
     = Inl (Thrown (js ''TypeError: this.events[event].push is not a function''))"
    by (simp add: on_def)
qed

subsection \<open>Route handlers\<close>

text \<open>
  Claim C1 states that each later handler sees the overlay accumulated from the earlier
  ones. A handler is called with the parameter mapping and nothing else: in the run of
  the claim's example, neither handler receives a title, although the first has set the
  title \<open>A\<close> before the second is called.
\<close>

theorem later_handler_receives_parameters_only:
  "map (\<lambda>(pattern, ps). (pattern, map_of ps (js ''title'')))
     (handler_calls (trace (snd (navigate example_collaborators posts_router (js ''/posts/7'') False))))
   = [(js ''/posts/:id'', None), (js ''/posts/*'', None)]"
  by code_simp

text \<open>
  Claim C1, amended: in a navigation during which no match attempt, no handler and no
  listener throws, the handlers of the routes that match the normalized URL are called in
  registration order, each with its parameters only; a string result replaces the body,
  an object result is merged into the content; the content accumulated from the earlier
  handlers is carried by the event \<open>route:\<close> followed by the pattern of each later
  matching route. The order of the handler calls needs no more than that nothing throws
  in the loop over the routes. With the routes \<open>/posts/:id\<close> and \<open>/posts/*\<close> and a
  navigation to \<open>/posts/7\<close>, both handlers are called, the final body is \<open>B\<close> and the
  final title \<open>A\<close>, and the listener of the second route's event finds the title \<open>A\<close>
  in its payload.
\<close>

theorem navigate_runs_matching_routes:
  "(navigation_quiet env s rawUrl data \<and> fetchPage env s rawUrl False = (Inr data, s1) \<longrightarrow>
      (let ms = matching_routes (routes s) (normalizeUrl s rawUrl);
           finalData = foldl override (spread data []) (map result_of ms);
           s2 = s1\<lparr>trace := trace s1 @ route_events (listeners s) rawUrl (spread data []) ms\<rparr>
       in navigate env s rawUrl replace =
            (Inr (),
             update_history (snd (render env s2 (spread [(js ''url'', VStr rawUrl)] finalData)))
               finalData rawUrl replace)))
   \<and> (no_throw env (listeners s) (routes s) rawUrl (normalizeUrl s rawUrl) (spread data [])
        \<and> fetchPage env s rawUrl False = (Inr data, s1) \<longrightarrow>
        handler_calls (trace (snd (navigate env s rawUrl replace)))
          = handler_calls (trace s)
            @ map (\<lambda>m. (fst m, fst (snd m))) (matching_routes (routes s) (normalizeUrl s rawUrl)))
   \<and> handler_calls (trace (snd (navigate example_collaborators posts_router (js ''/posts/7'') False)))
       = [(js ''/posts/:id'', [(js ''id'', js ''7'')]), (js ''/posts/*'', [(js ''*'', js ''7'')])]
   \<and> app_container (snd (navigate example_collaborators posts_router (js ''/posts/7'') False))
       = Some (js ''B'')
   \<and> document_title (snd (navigate example_collaborators posts_router (js ''/posts/7'') False))
       = js ''A''
   \<and> Listener 1 (VObject [(js ''url'', VStr (js ''/posts/7'')),
                           (js ''title'', VStr (js ''A'')),
                           (js ''body'', VStr (js ''<p>page</p>'')),
                           (js ''params'', VObject [(js ''*'', VStr (js ''7''))])])
       \<in> set (trace (snd (navigate example_collaborators posts_router (js ''/posts/7'') False)))"
proof (intro conjI impI)
  assume "navigation_quiet env s rawUrl data \<and> fetchPage env s rawUrl False = (Inr data, s1)"
  then show "let ms = matching_routes (routes s) (normalizeUrl s rawUrl);
           finalData = foldl override (spread data []) (map result_of ms);
           s2 = s1\<lparr>trace := trace s1 @ route_events (listeners s) rawUrl (spread data []) ms\<rparr>
       in navigate env s rawUrl replace =
            (Inr (),
             update_history (snd (render env s2 (spread [(js ''url'', VStr rawUrl)] finalData)))
               finalData rawUrl replace)"
    using navigate_quiet [of env s rawUrl data s1 replace] by simp
next
  assume "no_throw env (listeners s) (routes s) rawUrl (normalizeUrl s rawUrl) (spread data [])
        \<and> fetchPage env s rawUrl False = (Inr data, s1)"
  then show "handler_calls (trace (snd (navigate env s rawUrl replace)))
          = handler_calls (trace s)
            @ map (\<lambda>m. (fst m, fst (snd m))) (matching_routes (routes s) (normalizeUrl s rawUrl))"
    using navigate_quiet_calls [of env s rawUrl data s1 replace] by blast
next
  show "handler_calls (trace (snd (navigate example_collaborators posts_router (js ''/posts/7'') False)))
       = [(js ''/posts/:id'', [(js ''id'', js ''7'')]), (js ''/posts/*'', [(js ''*'', js ''7'')])]"
    by code_simp
  show "app_container (snd (navigate example_collaborators posts_router (js ''/posts/7'') False))
       = Some (js ''B'')"
    by code_simp
  show "document_title (snd (navigate example_collaborators posts_router (js ''/posts/7'') False))
       = js ''A''"
    by code_simp
  show "Listener 1 (VObject [(js ''url'', VStr (js ''/posts/7'')),
                           (js ''title'', VStr (js ''A'')),
                           (js ''body'', VStr (js ''<p>page</p>'')),
                           (js ''params'', VObject [(js ''*'', VStr (js ''7''))])])
       \<in> set (trace (snd (navigate example_collaborators posts_router (js ''/posts/7'') False)))"
    by code_simp
qed

theorem navigate_runs_matching_routes_witness:
  "navigation_quiet example_collaborators posts_router (js ''/posts/7'')
     [(js ''title'', VStr (js ''Page'')), (js ''body'', VStr (js ''<p>page</p>''))]
   \<and> no_throw example_collaborators (listeners posts_router) (routes posts_router) (js ''/posts/7'')
       (normalizeUrl posts_router (js ''/posts/7''))
       (spread [(js ''title'', VStr (js ''Page'')), (js ''body'', VStr (js ''<p>page</p>''))] [])
   \<and> fst (fetchPage example_collaborators posts_router (js ''/posts/7'') False)
       = Inr [(js ''title'', VStr (js ''Page'')), (js ''body'', VStr (js ''<p>page</p>''))]
   \<and> fst (navigate example_collaborators posts_router (js ''/posts/7'') False) = Inr ()
   \<and> handler_calls (trace (snd (navigate example_collaborators posts_router (js ''/posts/7'') False)))
       = handler_calls (trace posts_router)
         @ map (\<lambda>m. (fst m, fst (snd m)))
             (matching_routes (routes posts_router) (normalizeUrl posts_router (js ''/posts/7'')))"
proof -
  define data where "data = [(js ''title'', VStr (js ''Page'')), (js ''body'', VStr (js ''<p>page</p>''))]"
  define s1 where "s1 = snd (fetchPage example_collaborators posts_router (js ''/posts/7'') False)"
  have quiet: "navigation_quiet example_collaborators posts_router (js ''/posts/7'') data"
    unfolding data_def by code_simp
  have loop: "no_throw example_collaborators (listeners posts_router) (routes posts_router)
       (js ''/posts/7'') (normalizeUrl posts_router (js ''/posts/7'')) (spread data [])"
    unfolding data_def by code_simp
  have fetched: "fst (fetchPage example_collaborators posts_router (js ''/posts/7'') False) = Inr data"
    unfolding data_def by code_simp
  then have pair: "fetchPage example_collaborators posts_router (js ''/posts/7'') False = (Inr data, s1)"
    by (simp add: s1_def prod_eq_iff)
  note inst = navigate_runs_matching_routes
         [of example_collaborators posts_router "js ''/posts/7''" data s1 False, unfolded Let_def]
  from inst quiet pair
  have "fst (navigate example_collaborators posts_router (js ''/posts/7'') False) = Inr ()"
    by simp
  moreover from inst loop pair
  have "handler_calls (trace (snd (navigate example_collaborators posts_router (js ''/posts/7'') False)))
       = handler_calls (trace posts_router)
         @ map (\<lambda>m. (fst m, fst (snd m)))
             (matching_routes (routes posts_router) (normalizeUrl posts_router (js ''/posts/7'')))"
    by blast
  ultimately show ?thesis
    using quiet loop fetched unfolding data_def by blast
qed

text \<open>
  A listener that throws ends the loop as a handler does: with such a listener on the
  event of the first route, the handler of the second route is not called and nothing is
  rendered.
\<close>

lemma throwing_listener_ends_navigation:
  "fst (navigate example_collaborators noisy_router (js ''/posts/7'') False)
     = Inl (Thrown (js ''Error: listener failed''))
   \<and> handler_calls (trace (snd (navigate example_collaborators noisy_router (js ''/posts/7'') False)))
       = [(js ''/posts/:id'', [(js ''id'', js ''7'')])]
   \<and> app_container (snd (navigate example_collaborators noisy_router (js ''/posts/7'') False))
       = Some []"
  by code_simp

subsection \<open>The page cache\<close>

text \<open>
  Claim C4: when the request of a prefetch fails, the cache is as before and has no
  entry for the URL, the listeners of \<open>prefetch:error\<close> are called with the URL and the
  error, in the order of their subscription and up to the first that throws, and
  \<open>prefetch\<close> returns normally, whether a listener throws or not. When none throws, all
  of them are called and the debug message holds the error of the request.
\<close>

theorem prefetch_failure_is_swallowed:
  "map_of (cache s) url = None
   \<and> response_text (fetch env url (request_headers True)) = Inl err \<longrightarrow>
     fst (prefetch env s url) = Inr ()
     \<and> cache (snd (prefetch env s url)) = cache s
     \<and> map_of (cache (snd (prefetch env s url))) url = None
     \<and> trace (snd (prefetch env s url))
         = trace s @ Fetch url (request_headers True)
             # fst (call_listeners (listener env) (listeners s (js ''prefetch:error''))
                      (VObject [(js ''url'', VStr url), (js ''error'', VError err)]))
             @ [ConsoleDebug url
                  (case snd (call_listeners (listener env) (listeners s (js ''prefetch:error''))
                               (VObject [(js ''url'', VStr url), (js ''error'', VError err)])) of
                     None \<Rightarrow> err
                   | Some err' \<Rightarrow> err')]
     \<and> (listeners_return env (listeners s (js ''prefetch:error''))
           (VObject [(js ''url'', VStr url), (js ''error'', VError err)]) \<longrightarrow>
         trace (snd (prefetch env s url))
           = trace s @ Fetch url (request_headers True)
               # map (\<lambda>cb. Listener cb (VObject [(js ''url'', VStr url), (js ''error'', VError err)]))
                   (listeners s (js ''prefetch:error''))
               @ [ConsoleDebug url err])"
proof (intro impI)
  assume asm: "map_of (cache s) url = None
   \<and> response_text (fetch env url (request_headers True)) = Inl err"
  define payload where "payload = VObject [(js ''url'', VStr url), (js ''error'', VError err)]"
  define s0 where "s0 = s\<lparr>trace := trace s @ [Fetch url (request_headers True)]\<rparr>"
  obtain calls outcome
    where c: "call_listeners (listener env) (listeners s (js ''prefetch:error'')) payload = (calls, outcome)"
    by (cases "call_listeners (listener env) (listeners s (js ''prefetch:error'')) payload")
  from asm have t: "fetchPage_try env s0 url True = (Inl err, s0)"
    by (simp add: fetchPage_try_def)
  have l0: "listeners s0 = listeners s" by (simp add: s0_def listeners_trace)
  have e: "emit env s0 (js ''prefetch:error'') payload
      = ((case outcome of None \<Rightarrow> Inr () | Some err' \<Rightarrow> Inl err'), s0\<lparr>trace := trace s0 @ calls\<rparr>)"
    using c by (simp add: emit_def event_names l0)
  have f: "fetchPage env s url True
      = (Inl (case outcome of None \<Rightarrow> err | Some err' \<Rightarrow> err'), s0\<lparr>trace := trace s0 @ calls\<rparr>)"
    using asm t e
    by (cases outcome) (simp_all add: fetchPage_def s0_def [symmetric] payload_def [symmetric])
  have p: "prefetch env s url
      = (Inr (), s\<lparr>trace := trace s @ Fetch url (request_headers True) # calls
            @ [ConsoleDebug url (case outcome of None \<Rightarrow> err | Some err' \<Rightarrow> err')]\<rparr>)"
    using asm f by (simp add: prefetch_def s0_def)
  have quiet: "listeners_return env (listeners s (js ''prefetch:error'')) payload \<longrightarrow>
      calls = map (\<lambda>cb. Listener cb payload) (listeners s (js ''prefetch:error'')) \<and> outcome = None"
    using c call_listeners_return [of env "listeners s (js ''prefetch:error'')" payload] by auto
  from asm p c quiet show "fst (prefetch env s url) = Inr ()
     \<and> cache (snd (prefetch env s url)) = cache s
     \<and> map_of (cache (snd (prefetch env s url))) url = None
     \<and> trace (snd (prefetch env s url))
         = trace s @ Fetch url (request_headers True)
             # fst (call_listeners (listener env) (listeners s (js ''prefetch:error''))
                      (VObject [(js ''url'', VStr url), (js ''error'', VError err)]))
             @ [ConsoleDebug url
                  (case snd (call_listeners (listener env) (listeners s (js ''prefetch:error''))
                               (VObject [(js ''url'', VStr url), (js ''error'', VError err)])) of
                     None \<Rightarrow> err
                   | Some err' \<Rightarrow> err')]
     \<and> (listeners_return env (listeners s (js ''prefetch:error''))
           (VObject [(js ''url'', VStr url), (js ''error'', VError err)]) \<longrightarrow>
         trace (snd (prefetch env s url))
           = trace s @ Fetch url (request_headers True)
               # map (\<lambda>cb. Listener cb (VObject [(js ''url'', VStr url), (js ''error'', VError err)]))
                   (listeners s (js ''prefetch:error''))
               @ [ConsoleDebug url err])"
    unfolding payload_def [symmetric] by auto
qed

theorem prefetch_failure_is_swallowed_witness:
  "map_of (cache watched_router) (js ''/broken'') = None
   \<and> response_text (fetch example_collaborators (js ''/broken'') (request_headers True))
       = Inl (Thrown (js ''TypeError: Failed to fetch''))
   \<and> listeners_return example_collaborators (listeners watched_router (js ''prefetch:error''))
       (VObject [(js ''url'', VStr (js ''/broken'')),
                 (js ''error'', VError (Thrown (js ''TypeError: Failed to fetch'')))])
   \<and> fst (prefetch example_collaborators watched_router (js ''/broken'')) = Inr ()
   \<and> cache (snd (prefetch example_collaborators watched_router (js ''/broken''))) = []
   \<and> trace (snd (prefetch example_collaborators watched_router (js ''/broken'')))
       = [Fetch (js ''/broken'') [(js ''X-Requested-With'', js ''mini-router''), (js ''Purpose'', js ''prefetch'')],
          Listener 3 (VObject [(js ''url'', VStr (js ''/broken'')),
                               (js ''error'', VError (Thrown (js ''TypeError: Failed to fetch'')))]),
          ConsoleDebug (js ''/broken'') (Thrown (js ''TypeError: Failed to fetch''))]"
proof -
  have uncached: "map_of (cache watched_router) (js ''/broken'') = None"
    by code_simp
  have rejected: "response_text (fetch example_collaborators (js ''/broken'') (request_headers True))
       = Inl (Thrown (js ''TypeError: Failed to fetch''))"
    by code_simp
  have quiet: "listeners_return example_collaborators (listeners watched_router (js ''prefetch:error''))
       (VObject [(js ''url'', VStr (js ''/broken'')),
                 (js ''error'', VError (Thrown (js ''TypeError: Failed to fetch'')))])"
    by code_simp
  have empty: "cache watched_router = []"
    "trace watched_router = []"
    "listeners watched_router (js ''prefetch:error'') = [3]"
    "request_headers True = [(js ''X-Requested-With'', js ''mini-router''), (js ''Purpose'', js ''prefetch'')]"
    by code_simp+
  note inst = prefetch_failure_is_swallowed
         [of watched_router "js ''/broken''" example_collaborators
             "Thrown (js ''TypeError: Failed to fetch'')"]
  from inst uncached rejected
  have returns: "fst (prefetch example_collaborators watched_router (js ''/broken'')) = Inr ()"
    and same: "cache (snd (prefetch example_collaborators watched_router (js ''/broken'')))
      = cache watched_router"
    by blast+
  from inst uncached rejected quiet
  have "trace (snd (prefetch example_collaborators watched_router (js ''/broken'')))
      = trace watched_router @ Fetch (js ''/broken'') (request_headers True)
          # map (\<lambda>cb. Listener cb (VObject [(js ''url'', VStr (js ''/broken'')),
                   (js ''error'', VError (Thrown (js ''TypeError: Failed to fetch'')))]))
              (listeners watched_router (js ''prefetch:error''))
          @ [ConsoleDebug (js ''/broken'') (Thrown (js ''TypeError: Failed to fetch''))]"
    by blast
  with returns same uncached rejected quiet show ?thesis
    by (simp add: empty)
qed

text \<open>
  Claim C5 counts a response with a status outside 200 to 299 among the failures of the
  fetch. \<open>fetchPage\<close> never looks at the status: the text of a response with status 404
  is parsed and cached like any other page, and no fallback is made.
\<close>

theorem navigate_not_found_is_cached_as_page:
  "fetch example_collaborators (js ''/missing'') (request_headers False)
     = Response 404 (Inr (js ''<h1>Not Found</h1>''))
   \<and> map_of (cache (snd (navigate example_collaborators default_router (js ''/missing'') False)))
         (js ''/missing'')
       = Some [(js ''title'', VStr (js ''Not Found'')), (js ''body'', VStr (js ''<h1>Not Found</h1>''))]
   \<and> document_title (snd (navigate example_collaborators default_router (js ''/missing'') False))
       \<noteq> js ''Error''"
  by code_simp

text \<open>
  Claim C5, amended: when the request of a navigation is rejected or the text of the
  response cannot be read, \<open>fetchPage\<close> returns a fallback with the title \<open>Error\<close> and
  a body that holds the description of the error, and caches it under the URL; the
  navigation goes on with this content as with that of any page, and runs to its end
  when no match attempt, handler or listener throws; a second navigation to the same URL
  makes no request.
\<close>

theorem navigate_fetch_rejected:
  "map_of (cache s) url = None
   \<and> response_text (fetch env url (request_headers False)) = Inl err \<longrightarrow>
     fetchPage env s url False =
       (Inr (fallback err),
        s\<lparr>trace := trace s @ [Fetch url (request_headers False)],
          cache := AList.update url (fallback err) (cache s)\<rparr>)
     \<and> get_property (fallback err) (js ''title'') = VStr (js ''Error'')
     \<and> get_property (fallback err) (js ''body'')
         = VStr (js ''<h1>Network Error</h1><pre>'' @ String_of_error err @ js ''</pre>'')
     \<and> map_of (cache (snd (navigate env s url replace))) url = Some (fallback err)
     \<and> fetches (trace (snd (navigate env s url replace))) = fetches (trace s) @ [url]
     \<and> fetches (trace (snd (navigate env (snd (navigate env s url replace)) url replace')))
         = fetches (trace (snd (navigate env s url replace)))
     \<and> navigate env s url replace =
         (case run_routes env (routes s) url (normalizeUrl s url) (spread (fallback err) [])
                 (s\<lparr>trace := trace s @ [Fetch url (request_headers False)],
                    cache := AList.update url (fallback err) (cache s)\<rparr>) of
            (Inl err', s2) \<Rightarrow> (Inl err', s2)
          | (Inr finalData, s2) \<Rightarrow>
              (case render env s2 (spread [(js ''url'', VStr url)] finalData) of
                 (Inl err', s3) \<Rightarrow> (Inl err', s3)
               | (Inr u, s3) \<Rightarrow> (Inr (), update_history s3 finalData url replace)))
     \<and> (navigation_quiet env s url (fallback err) \<longrightarrow>
          (let s1 = s\<lparr>trace := trace s @ [Fetch url (request_headers False)],
                       cache := AList.update url (fallback err) (cache s)\<rparr>;
               ms = matching_routes (routes s) (normalizeUrl s url);
               finalData = foldl override (spread (fallback err) []) (map result_of ms);
               s2 = s1\<lparr>trace := trace s1 @ route_events (listeners s) url (spread (fallback err) []) ms\<rparr>
           in navigate env s url replace =
                (Inr (),
                 update_history (snd (render env s2 (spread [(js ''url'', VStr url)] finalData)))
                   finalData url replace)))"
proof (intro impI)
  assume asm: "map_of (cache s) url = None
   \<and> response_text (fetch env url (request_headers False)) = Inl err"
  define s1 where "s1 = s\<lparr>trace := trace s @ [Fetch url (request_headers False)],
          cache := AList.update url (fallback err) (cache s)\<rparr>"
  from asm have fetched: "fetchPage env s url False = (Inr (fallback err), s1)"
    unfolding s1_def by (simp add: fetchPage_rejected)
  have title: "get_property (fallback err) (js ''title'') = VStr (js ''Error'')"
    by (simp add: fallback_def get_property_def)
  have body: "get_property (fallback err) (js ''body'')
         = VStr (js ''<h1>Network Error</h1><pre>'' @ String_of_error err @ js ''</pre>'')"
    by (simp add: fallback_def get_property_def) (simp add: js_def)
  from navigate_after_fetch(1,2) [OF fetched, of replace]
  have cache1: "cache (snd (navigate env s url replace)) = cache s1"
    and fetches1: "fetches (trace (snd (navigate env s url replace))) = fetches (trace s1)"
    by simp_all
  from cache1 have cached: "map_of (cache (snd (navigate env s url replace))) url = Some (fallback err)"
    by (simp add: s1_def update_conv')
  from fetches1 have once: "fetches (trace (snd (navigate env s url replace))) = fetches (trace s) @ [url]"
    by (simp add: s1_def fetches_append fetches_single)
  from navigate_after_fetch(2) [OF fetchPage_cached [OF cached], of env replace']
  have again: "fetches (trace (snd (navigate env (snd (navigate env s url replace)) url replace')))
         = fetches (trace (snd (navigate env s url replace)))" .
  note goes_on = navigate_from_content [OF fetched, of replace, unfolded s1_def]
  have quiet: "navigation_quiet env s url (fallback err) \<longrightarrow>
          (let s1 = s\<lparr>trace := trace s @ [Fetch url (request_headers False)],
                       cache := AList.update url (fallback err) (cache s)\<rparr>;
               ms = matching_routes (routes s) (normalizeUrl s url);
               finalData = foldl override (spread (fallback err) []) (map result_of ms);
               s2 = s1\<lparr>trace := trace s1 @ route_events (listeners s) url (spread (fallback err) []) ms\<rparr>
           in navigate env s url replace =
                (Inr (),
                 update_history (snd (render env s2 (spread [(js ''url'', VStr url)] finalData)))
                   finalData url replace))"
    using navigate_quiet [OF fetched, of replace] unfolding s1_def Let_def by blast
  from fetched [unfolded s1_def] title body cached once again goes_on quiet
  show "fetchPage env s url False =
       (Inr (fallback err),
        s\<lparr>trace := trace s @ [Fetch url (request_headers False)],
          cache := AList.update url (fallback err) (cache s)\<rparr>)
     \<and> get_property (fallback err) (js ''title'') = VStr (js ''Error'')
     \<and> get_property (fallback err) (js ''body'')
         = VStr (js ''<h1>Network Error</h1><pre>'' @ String_of_error err @ js ''</pre>'')
     \<and> map_of (cache (snd (navigate env s url replace))) url = Some (fallback err)
     \<and> fetches (trace (snd (navigate env s url replace))) = fetches (trace s) @ [url]
     \<and> fetches (trace (snd (navigate env (snd (navigate env s url replace)) url replace')))
         = fetches (trace (snd (navigate env s url replace)))
     \<and> navigate env s url replace =
         (case run_routes env (routes s) url (normalizeUrl s url) (spread (fallback err) [])
                 (s\<lparr>trace := trace s @ [Fetch url (request_headers False)],
                    cache := AList.update url (fallback err) (cache s)\<rparr>) of
            (Inl err', s2) \<Rightarrow> (Inl err', s2)
          | (Inr finalData, s2) \<Rightarrow>
              (case render env s2 (spread [(js ''url'', VStr url)] finalData) of
                 (Inl err', s3) \<Rightarrow> (Inl err', s3)
               | (Inr u, s3) \<Rightarrow> (Inr (), update_history s3 finalData url replace)))
     \<and> (navigation_quiet env s url (fallback err) \<longrightarrow>
          (let s1 = s\<lparr>trace := trace s @ [Fetch url (request_headers False)],
                       cache := AList.update url (fallback err) (cache s)\<rparr>;
               ms = matching_routes (routes s) (normalizeUrl s url);
               finalData = foldl override (spread (fallback err) []) (map result_of ms);
               s2 = s1\<lparr>trace := trace s1 @ route_events (listeners s) url (spread (fallback err) []) ms\<rparr>
           in navigate env s url replace =
                (Inr (),
                 update_history (snd (render env s2 (spread [(js ''url'', VStr url)] finalData)))
                   finalData url replace)))"
    by blast
qed

theorem navigate_fetch_rejected_witness:
  "map_of (cache default_router) (js ''/broken'') = None
   \<and> response_text (fetch example_collaborators (js ''/broken'') (request_headers False))
       = Inl (Thrown (js ''TypeError: Failed to fetch''))
   \<and> navigation_quiet example_collaborators default_router (js ''/broken'')
       (fallback (Thrown (js ''TypeError: Failed to fetch'')))
   \<and> fst (navigate example_collaborators default_router (js ''/broken'') False) = Inr ()
   \<and> map_of (cache (snd (navigate example_collaborators default_router (js ''/broken'') False)))
         (js ''/broken'')
       = Some (fallback (Thrown (js ''TypeError: Failed to fetch'')))
   \<and> get_property (fallback (Thrown (js ''TypeError: Failed to fetch''))) (js ''title'')
       = VStr (js ''Error'')
   \<and> fetches (trace (snd (navigate example_collaborators default_router (js ''/broken'') False)))
       = [js ''/broken'']
   \<and> fetches (trace (snd (navigate example_collaborators
          (snd (navigate example_collaborators default_router (js ''/broken'') False))
          (js ''/broken'') False)))
       = [js ''/broken'']
   \<and> document_title (snd (navigate example_collaborators default_router (js ''/broken'') False))
       = js ''Error''"
proof -
  have uncached: "map_of (cache default_router) (js ''/broken'') = None"
    by code_simp
  have rejected: "response_text (fetch example_collaborators (js ''/broken'') (request_headers False))
       = Inl (Thrown (js ''TypeError: Failed to fetch''))"
    by code_simp
  have quiet: "navigation_quiet example_collaborators default_router (js ''/broken'')
       (fallback (Thrown (js ''TypeError: Failed to fetch'')))"
    by code_simp
  have none: "fetches (trace default_router) = []"
    by code_simp
  have shown: "document_title (snd (navigate example_collaborators default_router (js ''/broken'') False))
       = js ''Error''"
    by code_simp
  note inst = navigate_fetch_rejected
      [of default_router "js ''/broken''" example_collaborators
          "Thrown (js ''TypeError: Failed to fetch'')" False False, unfolded Let_def]
  from inst uncached rejected quiet
  have "\<exists>s'. navigate example_collaborators default_router (js ''/broken'') False = (Inr (), s')"
    by blast
  then have "fst (navigate example_collaborators default_router (js ''/broken'') False) = Inr ()"
    by auto
  moreover from inst uncached rejected
  have "map_of (cache (snd (navigate example_collaborators default_router (js ''/broken'') False)))
         (js ''/broken'')
       = Some (fallback (Thrown (js ''TypeError: Failed to fetch'')))"
    and "get_property (fallback (Thrown (js ''TypeError: Failed to fetch''))) (js ''title'')
       = VStr (js ''Error'')"
    and "fetches (trace (snd (navigate example_collaborators default_router (js ''/broken'') False)))
       = fetches (trace default_router) @ [js ''/broken'']"
    and "fetches (trace (snd (navigate example_collaborators
          (snd (navigate example_collaborators default_router (js ''/broken'') False))
          (js ''/broken'') False)))
       = fetches (trace (snd (navigate example_collaborators default_router (js ''/broken'') False)))"
    by blast+
  ultimately show ?thesis
    using uncached rejected quiet shown by (simp add: none)
qed




subsection \<open>Prefetch on hover\<close>

text \<open>
  Disabling empties the bookkeeping map and cancels the pending timers that the map
  holds.
\<close>

lemma foldl_clearTimeout:
  "timers (foldl clearTimeout s ids) = filter (\<lambda>(i, href). i \<notin> set ids) (timers s)
   \<and> prefetchTimeouts (foldl clearTimeout s ids) = prefetchTimeouts s"
  by (induction ids arbitrary: s) (auto simp: clearTimeout_def intro: filter_cong)

lemma setPrefetchOnHover_cancels_known_timers:
  "prefetchTimeouts (setPrefetchOnHover s False) = []
   \<and> timers (setPrefetchOnHover s False)
       = filter (\<lambda>(i, href). i \<notin> snd ` set (prefetchTimeouts s)) (timers s)"
  by (simp add: setPrefetchOnHover_def Let_def foldl_clearTimeout)

text \<open>
  Claim C9 states that hovers are ignored while prefetch on hover is disabled. The flag
  \<open>prefetchOnHover\<close> is read by the constructor alone: the listener it has installed
  stays installed and does not test the flag. After \<^verbatim>\<open>setPrefetchOnHover(false)\<close> on a
  router with the default options, a hover over a link prefetches its address at once;
  with a delay of 150 milliseconds the hover starts a timer, which fires and prefetches.
\<close>

theorem hover_after_disabling_still_prefetches:
  "prefetchOnHover (setPrefetchOnHover default_router False) = False
   \<and> fetches (trace (mouseenter example_collaborators
                       (setPrefetchOnHover default_router False) (Some about_link)))
       = [js ''/about'']
   \<and> prefetchOnHover (setPrefetchOnHover delayed_router False) = False
   \<and> timers (mouseenter example_collaborators
                (setPrefetchOnHover delayed_router False) (Some about_link))
       = [(1, js ''/about'')]
   \<and> fetches (trace (timer_fires example_collaborators
                       (mouseenter example_collaborators
                          (setPrefetchOnHover delayed_router False) (Some about_link)) 1))
       = [js ''/about'']"
  by code_simp

text \<open>
  A timer that a second hover over the same link has replaced in the bookkeeping map is
  no longer known to \<open>setPrefetchOnHover\<close> and stays pending when prefetch on hover is
  disabled.
\<close>

lemma replaced_timer_survives_disabling:
  "timers (setPrefetchOnHover
             (mouseenter example_collaborators
                (mouseenter example_collaborators delayed_router (Some about_link))
                (Some about_link))
             False)
     = [(1, js ''/about'')]"
  by code_simp

end
